theory Spec2Isabelle
  imports Complex_Main "HOL-Library.Char_ord" "HOL-Library.List_Lexorder" "HOL-Library.Multiset"
    "HOL-Library.Sublist"
begin

section \<open>Platform functions used by the server\<close>

text \<open>
  The server reads the clock through \<^verbatim>\<open>Date.now()\<close> (milliseconds since the epoch) and
  through SQLite's \<^verbatim>\<open>datetime('now')\<close> and \<^verbatim>\<open>CURRENT_TIMESTAMP\<close>. Both render the same
  instant as text, in two different layouts, and SQLite compares the stored texts byte by
  byte (the order of \<^typ>\<open>string\<close> below). The calendar conversion is the usual
  days-to-civil computation of the proleptic Gregorian calendar; both layouts are
  modelled for the years 1970 to 9999, where they have four-digit years.
\<close>

definition digit :: "nat \<Rightarrow> char" where
  "digit k = ''0123456789'' ! (k mod 10)"

definition pad2 :: "nat \<Rightarrow> string" where
  "pad2 n = [digit (n div 10), digit n]"

definition pad3 :: "nat \<Rightarrow> string" where
  "pad3 n = [digit (n div 100), digit (n div 10), digit n]"

definition pad4 :: "nat \<Rightarrow> string" where
  "pad4 n = [digit (n div 1000), digit (n div 100), digit (n div 10), digit n]"

definition civil_from_days :: "nat \<Rightarrow> nat \<times> nat \<times> nat" where
  "civil_from_days days =
     (let z = days + 719468;
          era = z div 146097;
          doe = z mod 146097;
          yoe = (doe + doe div 36524 - doe div 1460 - doe div 146096) div 365;
          y = yoe + era * 400;
          doy = doe - (365 * yoe + yoe div 4 - yoe div 100);
          mp = (5 * doy + 2) div 153;
          d = doy - (153 * mp + 2) div 5 + 1;
          m = (if mp < 10 then mp + 3 else mp - 9)
      in (if m \<le> 2 then y + 1 else y, m, d))"

definition date_text :: "nat \<Rightarrow> string" where
  "date_text ms =
     (case civil_from_days (ms div 86400000) of
        (y, m, d) \<Rightarrow> pad4 y @ ''-'' @ pad2 m @ ''-'' @ pad2 d)"

definition time_text :: "nat \<Rightarrow> string" where
  "time_text ms =
     pad2 (ms div 3600000 mod 24) @ '':'' @ pad2 (ms div 60000 mod 60) @ '':'' @
     pad2 (ms div 1000 mod 60)"

definition toISOString :: "nat \<Rightarrow> string" where
  \<comment> \<open>\<^verbatim>\<open>new Date(ms).toISOString()\<close>: \<^verbatim>\<open>YYYY-MM-DDTHH:mm:ss.sssZ\<close>\<close>
  "toISOString ms = date_text ms @ ''T'' @ time_text ms @ ''.'' @ pad3 (ms mod 1000) @ ''Z''"

definition sqlite_datetime :: "nat \<Rightarrow> string" where
  \<comment> \<open>\<^verbatim>\<open>datetime('now')\<close> and \<^verbatim>\<open>CURRENT_TIMESTAMP\<close> at the instant ms: \<^verbatim>\<open>YYYY-MM-DD HH:MM:SS\<close>\<close>
  "sqlite_datetime ms = date_text ms @ '' '' @ time_text ms"

text \<open>
  A username is a JavaScript string on which the server calls \<^verbatim>\<open>.length\<close> and
  \<^verbatim>\<open>.toLowerCase()\<close>: it is kept as the list of its UTF-16 code units, so that its length
  is the one the code tests. \<^verbatim>\<open>String.prototype.toLowerCase\<close> itself is not modelled: every
  function of the server that calls it takes it as the parameter \<open>toLowerCase\<close>, and what
  is proved of them holds for every function in its place. All other texts (PINs, station
  ids, session ids, timestamps) are only compared, and are kept as the bytes that SQLite
  compares.
\<close>

type_synonym jsstring = "nat list"

definition units :: "string \<Rightarrow> jsstring" where
  \<comment> \<open>the code units of a text written in ASCII\<close>
  "units s = map of_char s"

definition is_digit :: "char \<Rightarrow> bool" where
  "is_digit c \<longleftrightarrow> CHR ''0'' \<le> c \<and> c \<le> CHR ''9''"

definition hexdigit :: "nat \<Rightarrow> char" where
  "hexdigit k = ''0123456789abcdef'' ! (k mod 16)"

definition hex2 :: "nat \<Rightarrow> string" where
  \<comment> \<open>\<^verbatim>\<open>b.toString(16).padStart(2, '0')\<close> for a byte b\<close>
  "hex2 b = [hexdigit (b div 16), hexdigit b]"

section \<open>The store (lib/db.js)\<close>

text \<open>
  The three tables of \<^verbatim>\<open>initSchema\<close>, each a list of rows in rowid order, and the
  \<^verbatim>\<open>AUTOINCREMENT\<close> counters that SQLite keeps in \<^verbatim>\<open>sqlite_sequence\<close>.
\<close>

record user_row =
  u_id :: nat
  u_username :: jsstring
  u_pin :: string
  u_created_at :: string

record session_row =
  s_id :: string
  s_user_id :: nat
  s_created_at :: string
  s_expires_at :: string

record visited_row =
  v_id :: nat
  v_user_id :: nat
  v_station_id :: string
  v_visited_at :: string

record db =
  users :: "user_row list"
  sessions :: "session_row list"
  visited_stations :: "visited_row list"
  users_seq :: nat
  visited_seq :: nat

datatype sqlite_error =
    SQLITE_CONSTRAINT_UNIQUE
  | SQLITE_CONSTRAINT_PRIMARYKEY
  | SQLITE_CONSTRAINT_FOREIGNKEY

definition next_rowid :: "nat \<Rightarrow> nat list \<Rightarrow> nat" where
  \<comment> \<open>\<^verbatim>\<open>AUTOINCREMENT\<close>: one more than the largest rowid the table has ever held\<close>
  "next_rowid seq ids = Suc (fold max ids seq)"

definition user_exists :: "db \<Rightarrow> nat \<Rightarrow> bool" where
  \<comment> \<open>the parent row that \<^verbatim>\<open>FOREIGN KEY (user_id) REFERENCES users(id)\<close> asks for\<close>
  "user_exists d uid \<longleftrightarrow> uid \<in> set (map u_id (users d))"

definition same_mark :: "nat \<Rightarrow> string \<Rightarrow> visited_row \<Rightarrow> bool" where
  "same_mark uid sid r \<longleftrightarrow> v_user_id r = uid \<and> v_station_id r = sid"

definition insert_or_replace_visited :: "db \<Rightarrow> nat \<Rightarrow> nat \<Rightarrow> string \<Rightarrow> sqlite_error + db" where
  \<comment> \<open>\<^verbatim>\<open>INSERT OR REPLACE INTO visited_stations (user_id, station_id) VALUES (?, ?)\<close>:
      rows in conflict on \<^verbatim>\<open>UNIQUE(user_id, station_id)\<close> are deleted, then the new row
      is inserted with a fresh id and \<^verbatim>\<open>visited_at = CURRENT_TIMESTAMP\<close>\<close>
  "insert_or_replace_visited d now uid sid =
     (if \<not> user_exists d uid then Inl SQLITE_CONSTRAINT_FOREIGNKEY
      else
        let kept = filter (\<lambda>r. \<not> same_mark uid sid r) (visited_stations d);
            rid = next_rowid (visited_seq d) (map v_id (visited_stations d))
        in Inr (d\<lparr>visited_stations :=
                    kept @ [\<lparr>v_id = rid, v_user_id = uid, v_station_id = sid,
                             v_visited_at = sqlite_datetime now\<rparr>],
                  visited_seq := rid\<rparr>))"

definition delete_visited :: "db \<Rightarrow> nat \<Rightarrow> string \<Rightarrow> nat \<times> db" where
  \<comment> \<open>\<^verbatim>\<open>DELETE FROM visited_stations WHERE user_id = ? AND station_id = ?\<close>, with
      \<^verbatim>\<open>result.changes\<close>\<close>
  "delete_visited d uid sid =
     (length (filter (same_mark uid sid) (visited_stations d)),
      d\<lparr>visited_stations := filter (\<lambda>r. \<not> same_mark uid sid r) (visited_stations d)\<rparr>)"

definition delete_all_visited :: "db \<Rightarrow> nat \<Rightarrow> nat \<times> db" where
  \<comment> \<open>\<^verbatim>\<open>DELETE FROM visited_stations WHERE user_id = ?\<close>, with \<^verbatim>\<open>result.changes\<close>\<close>
  "delete_all_visited d uid =
     (length (filter (\<lambda>r. v_user_id r = uid) (visited_stations d)),
      d\<lparr>visited_stations := filter (\<lambda>r. v_user_id r \<noteq> uid) (visited_stations d)\<rparr>)"

definition select_visited_rows :: "db \<Rightarrow> nat \<Rightarrow> visited_row list" where
  \<comment> \<open>\<^verbatim>\<open>SELECT ... FROM visited_stations WHERE user_id = ? ORDER BY visited_at\<close>: SQLite
      finds the user's rows through the index of \<^verbatim>\<open>UNIQUE(user_id, station_id)\<close>, so
      they arrive by station id, and sorts them on \<^verbatim>\<open>visited_at\<close> keeping that order
      among equal timestamps\<close>
  "select_visited_rows d uid =
     sort_key v_visited_at
       (sort_key v_station_id (filter (\<lambda>r. v_user_id r = uid) (visited_stations d)))"

definition select_visited :: "db \<Rightarrow> nat \<Rightarrow> string list" where
  \<comment> \<open>\<^verbatim>\<open>rows.map(row => row.station_id)\<close>\<close>
  "select_visited d uid = map v_station_id (select_visited_rows d uid)"

section \<open>Sessions and authentication (lib/auth.js)\<close>

record req_user =
  ru_id :: nat
  ru_username :: jsstring

definition SESSION_MAX_AGE :: nat where
  "SESSION_MAX_AGE = 30 * 24 * 60 * 60 * 1000"

definition session_users :: "db \<Rightarrow> nat \<Rightarrow> string \<Rightarrow> req_user list" where
  \<comment> \<open>\<^verbatim>\<open>SELECT u.id, u.username FROM sessions s JOIN users u ON s.user_id = u.id
      WHERE s.id = ? AND s.expires_at > datetime('now')\<close>\<close>
  "session_users d now sid =
     [\<lparr>ru_id = u_id u, ru_username = u_username u\<rparr>.
        s \<leftarrow> sessions d, u \<leftarrow> users d,
        s_user_id s = u_id u, s_id s = sid, s_expires_at s > sqlite_datetime now]"

definition getUserFromSession :: "db \<Rightarrow> nat \<Rightarrow> string option \<Rightarrow> req_user option" where
  \<comment> \<open>\<^verbatim>\<open>!sessionId\<close> holds for a missing cookie and for the empty string; \<^verbatim>\<open>.get\<close>
      returns the first row of the query\<close>
  "getUserFromSession d now sessionId =
     (case sessionId of
        None \<Rightarrow> None
      | Some sid \<Rightarrow>
          if sid = [] then None
          else (case session_users d now sid of [] \<Rightarrow> None | row # _ \<Rightarrow> Some row))"

definition deleteSession :: "db \<Rightarrow> string \<Rightarrow> db" where
  "deleteSession d sessionId = d\<lparr>sessions := filter (\<lambda>s. s_id s \<noteq> sessionId) (sessions d)\<rparr>"

definition random_byte :: "rat \<Rightarrow> nat" where
  \<comment> \<open>\<^verbatim>\<open>bytes[i] = Math.floor(Math.random() * 256)\<close>, stored in a \<^verbatim>\<open>Uint8Array\<close>; the argument
      is the number that \<^verbatim>\<open>Math.random()\<close> returned\<close>
  "random_byte r = nat (\<lfloor>r * 256\<rfloor> mod 256)"

definition generateSessionId :: "(nat \<Rightarrow> rat) \<Rightarrow> string" where
  \<comment> \<open>random i is what the i-th call of \<^verbatim>\<open>Math.random()\<close> returns\<close>
  "generateSessionId random = concat (map (\<lambda>i. hex2 (random_byte (random i))) [0..<24])"

definition insert_user :: "db \<Rightarrow> nat \<Rightarrow> jsstring \<Rightarrow> string \<Rightarrow> sqlite_error + nat \<times> db" where
  \<comment> \<open>\<^verbatim>\<open>INSERT INTO users (username, pin) VALUES (?, ?)\<close> with \<^verbatim>\<open>result.lastInsertRowid\<close>;
      \<^verbatim>\<open>username TEXT UNIQUE\<close>\<close>
  "insert_user d now name pin =
     (if name \<in> set (map u_username (users d)) then Inl SQLITE_CONSTRAINT_UNIQUE
      else
        let uid = next_rowid (users_seq d) (map u_id (users d))
        in Inr (uid,
                d\<lparr>users := users d @ [\<lparr>u_id = uid, u_username = name, u_pin = pin,
                                         u_created_at = sqlite_datetime now\<rparr>],
                  users_seq := uid\<rparr>))"

definition createUser ::
  "(jsstring \<Rightarrow> jsstring) \<Rightarrow> db \<Rightarrow> nat \<Rightarrow> jsstring \<Rightarrow> string \<Rightarrow> (req_user \<times> db) option" where
  \<comment> \<open>the \<^verbatim>\<open>SQLITE_CONSTRAINT_UNIQUE\<close> of the insert is caught and answered with \<^verbatim>\<open>null\<close>\<close>
  "createUser toLowerCase d now username pin =
     (case insert_user d now (toLowerCase username) pin of
        Inl err \<Rightarrow> None
      | Inr (uid, d') \<Rightarrow> Some (\<lparr>ru_id = uid, ru_username = toLowerCase username\<rparr>, d'))"

definition verifyUser ::
  "(jsstring \<Rightarrow> jsstring) \<Rightarrow> db \<Rightarrow> jsstring \<Rightarrow> string \<Rightarrow> user_row option" where
  \<comment> \<open>\<^verbatim>\<open>SELECT * FROM users WHERE username = ? AND pin = ?\<close>, first row or \<^verbatim>\<open>null\<close>\<close>
  "verifyUser toLowerCase d username pin =
     (case filter (\<lambda>u. u_username u = toLowerCase username \<and> u_pin u = pin) (users d) of
        [] \<Rightarrow> None
      | u # _ \<Rightarrow> Some u)"

definition createSession :: "db \<Rightarrow> nat \<Rightarrow> (nat \<Rightarrow> rat) \<Rightarrow> nat \<Rightarrow> sqlite_error + string \<times> db" where
  \<comment> \<open>the \<^verbatim>\<open>INSERT INTO sessions\<close> throws on \<^verbatim>\<open>id TEXT PRIMARY KEY\<close> and on the
      foreign key to \<^verbatim>\<open>users(id)\<close> (\<^verbatim>\<open>foreign_keys = ON\<close>)\<close>
  "createSession d now random userId =
     (let sessionId = generateSessionId random;
          expiresAt = toISOString (now + SESSION_MAX_AGE)
      in if sessionId \<in> set (map s_id (sessions d)) then Inl SQLITE_CONSTRAINT_PRIMARYKEY
         else if \<not> user_exists d userId then Inl SQLITE_CONSTRAINT_FOREIGNKEY
         else Inr (sessionId,
                   d\<lparr>sessions := sessions d @
                        [\<lparr>s_id = sessionId, s_user_id = userId,
                          s_created_at = sqlite_datetime now, s_expires_at = expiresAt\<rparr>]\<rparr>))"

definition authMiddleware :: "db \<Rightarrow> nat \<Rightarrow> string option \<Rightarrow> req_user option" where
  \<comment> \<open>\<^verbatim>\<open>req.user = getUserFromSession(req.cookies?.session_id)\<close>; cookie is the text of
      the \<^verbatim>\<open>session_id\<close> cookie, \<open>None\<close> when the request has none\<close>
  "authMiddleware d now cookie = getUserFromSession d now cookie"

section \<open>Start of the server (lib/db.js)\<close>

text \<open>
  \<^verbatim>\<open>initSchema\<close> runs once when the server starts. The file it opens has the tables
  \<^verbatim>\<open>users\<close> and \<^verbatim>\<open>sessions\<close> or not (then they are created empty), and a table
  \<^verbatim>\<open>visited_stations\<close> that is missing, has no column \<^verbatim>\<open>user_id\<close> (the single-user
  version: station id and timestamp, the latter possibly \<^verbatim>\<open>NULL\<close>), or has one. \<^verbatim>\<open>now\<close> is
  the clock reading at the start.
\<close>

datatype visited_table =
    Absent
  | Legacy "(string \<times> string option) list"
  | Current "visited_row list"

record db_file =
  f_users :: "user_row list"
  f_sessions :: "session_row list"
  f_visited :: visited_table
  f_users_seq :: nat
  f_visited_seq :: nat

definition insert_visited :: "db \<Rightarrow> nat \<Rightarrow> string \<Rightarrow> string \<Rightarrow> sqlite_error + db" where
  \<comment> \<open>\<^verbatim>\<open>INSERT INTO visited_stations (user_id, station_id, visited_at) VALUES (?, ?, ?)\<close>\<close>
  "insert_visited d uid sid visited_at =
     (if \<not> user_exists d uid then Inl SQLITE_CONSTRAINT_FOREIGNKEY
      else if \<exists>r\<in>set (visited_stations d). same_mark uid sid r then Inl SQLITE_CONSTRAINT_UNIQUE
      else
        let rid = next_rowid (visited_seq d) (map v_id (visited_stations d))
        in Inr (d\<lparr>visited_stations :=
                    visited_stations d @
                    [\<lparr>v_id = rid, v_user_id = uid, v_station_id = sid, v_visited_at = visited_at\<rparr>],
                  visited_seq := rid\<rparr>))"

fun migrate_rows :: "db \<Rightarrow> nat \<Rightarrow> nat \<Rightarrow> (string \<times> string option) list \<Rightarrow> sqlite_error + db" where
  \<comment> \<open>\<^verbatim>\<open>insert.run(kartikyeId, row.station_id, row.visited_at || new Date().toISOString())\<close>
      for each old row\<close>
  "migrate_rows d now kartikyeId [] = Inr d"
| "migrate_rows d now kartikyeId ((station_id, visited_at) # oldData) =
     (case insert_visited d kartikyeId station_id
             (case visited_at of
                None \<Rightarrow> toISOString now
              | Some t \<Rightarrow> if t = [] then toISOString now else t) of
        Inl err \<Rightarrow> Inl err
      | Inr d' \<Rightarrow> migrate_rows d' now kartikyeId oldData)"

definition initSchema :: "db_file \<Rightarrow> nat \<Rightarrow> sqlite_error + db" where
  "initSchema f now =
     (let d = \<lparr>users = f_users f, sessions = f_sessions f, visited_stations = [],
                users_seq = f_users_seq f, visited_seq = 0\<rparr>
      in case f_visited f of
           Absent \<Rightarrow>
             (if units ''kartikye'' \<in> set (map u_username (users d)) then Inr d
              else (case insert_user d now (units ''kartikye'') ''4569'' of
                      Inl err \<Rightarrow> Inl err
                    | Inr (uid, d') \<Rightarrow> Inr d'))
         | Current rows \<Rightarrow> Inr (d\<lparr>visited_stations := rows, visited_seq := f_visited_seq f\<rparr>)
         | Legacy oldData \<Rightarrow>
             (case insert_user d now (units ''kartikye'') ''4569'' of
                Inl err \<Rightarrow> Inl err
              | Inr (kartikyeId, d') \<Rightarrow> migrate_rows d' now kartikyeId oldData))"

section \<open>The HTTP routes (server.js)\<close>

datatype body =
    ErrorMsg string
  | AuthOk nat jsstring
  | StationIds "string list"
  | Marked string
  | Unmarked string bool
  | Cleared nat
  | Success
  | Unhandled sqlite_error

record response =
  status :: nat
  body :: body
  set_cookie :: "string option"

definition json :: "nat \<Rightarrow> body \<Rightarrow> response" where
  "json st b = \<lparr>status = st, body = b, set_cookie = None\<rparr>"

datatype api_request =
    GetVisited
  | PostVisited string
  | DeleteVisited string
  | DeleteAllVisited

definition get_visited :: "db \<Rightarrow> req_user \<Rightarrow> response \<times> db" where
  "get_visited d user = (json 200 (StationIds (select_visited d (ru_id user))), d)"

definition post_visited :: "db \<Rightarrow> nat \<Rightarrow> req_user \<Rightarrow> string \<Rightarrow> response \<times> db" where
  "post_visited d now user stationId =
     (case insert_or_replace_visited d now (ru_id user) stationId of
        Inl err \<Rightarrow> (json 500 (ErrorMsg ''Failed to mark station as visited''), d)
      | Inr d' \<Rightarrow> (json 200 (Marked stationId), d'))"

definition delete_visited_station :: "db \<Rightarrow> req_user \<Rightarrow> string \<Rightarrow> response \<times> db" where
  "delete_visited_station d user stationId =
     (case delete_visited d (ru_id user) stationId of
        (changes, d') \<Rightarrow> (json 200 (Unmarked stationId (changes > 0)), d'))"

definition delete_all_visited_stations :: "db \<Rightarrow> req_user \<Rightarrow> response \<times> db" where
  "delete_all_visited_stations d user =
     (case delete_all_visited d (ru_id user) of
        (changes, d') \<Rightarrow> (json 200 (Cleared changes), d'))"

definition api_visited :: "db \<Rightarrow> nat \<Rightarrow> string option \<Rightarrow> api_request \<Rightarrow> response \<times> db" where
  \<comment> \<open>\<^verbatim>\<open>authMiddleware\<close>, then \<^verbatim>\<open>requireAuth\<close>, then the route's handler; now is the
      clock reading while the request is served\<close>
  "api_visited d now cookie rq =
     (case authMiddleware d now cookie of
        None \<Rightarrow> (json 401 (ErrorMsg ''Authentication required''), d)
      | Some user \<Rightarrow>
          (case rq of
             GetVisited \<Rightarrow> get_visited d user
           | PostVisited stationId \<Rightarrow> post_visited d now user stationId
           | DeleteVisited stationId \<Rightarrow> delete_visited_station d user stationId
           | DeleteAllVisited \<Rightarrow> delete_all_visited_stations d user))"

definition rows_of :: "db \<Rightarrow> nat \<Rightarrow> visited_row list" where
  \<comment> \<open>the rows of \<^verbatim>\<open>visited_stations\<close> with the given \<^verbatim>\<open>user_id\<close>, in table order\<close>
  "rows_of d uid = filter (\<lambda>r. v_user_id r = uid) (visited_stations d)"

definition marks_of :: "db \<Rightarrow> nat \<Rightarrow> (string \<times> string) list" where
  \<comment> \<open>the same rows without the surrogate key: station id and timestamp\<close>
  "marks_of d uid = map (\<lambda>r. (v_station_id r, v_visited_at r)) (rows_of d uid)"

fun run_api :: "db \<Rightarrow> (nat \<times> string option \<times> api_request) list \<Rightarrow> response list \<times> db" where
  \<comment> \<open>the server handles one request after the other; each comes with the clock reading
      at which it is served and the \<^verbatim>\<open>session_id\<close> cookie it carries\<close>
  "run_api d [] = ([], d)"
| "run_api d ((now, cookie, rq) # calls) =
     (case api_visited d now cookie rq of
        (r, d') \<Rightarrow> (case run_api d' calls of (rs, d'') \<Rightarrow> (r # rs, d'')))"

definition falsy :: "'a list option \<Rightarrow> bool" where
  \<comment> \<open>\<^verbatim>\<open>!x\<close> for a body field that is missing or a string\<close>
  "falsy v \<longleftrightarrow> (case v of None \<Rightarrow> True | Some s \<Rightarrow> s = [])"

definition valid_pin :: "string \<Rightarrow> bool" where
  \<comment> \<open>\<^verbatim>\<open>/^\\d{4,6}$/.test(pin)\<close>\<close>
  "valid_pin p \<longleftrightarrow> 4 \<le> length p \<and> length p \<le> 6 \<and> list_all is_digit p"

definition start_session :: "db \<Rightarrow> nat \<Rightarrow> (nat \<Rightarrow> rat) \<Rightarrow> nat \<Rightarrow> jsstring \<Rightarrow> response \<times> db" where
  \<comment> \<open>the common end of register and login: \<^verbatim>\<open>createSession\<close>, \<^verbatim>\<open>res.cookie\<close>,
      \<^verbatim>\<open>res.json\<close>; an exception of \<^verbatim>\<open>createSession\<close> is not caught by the route and
      becomes the framework's 500 answer\<close>
  "start_session d now random uid name =
     (case createSession d now random uid of
        Inl err \<Rightarrow> (json 500 (Unhandled err), d)
      | Inr (sessionId, d') \<Rightarrow>
          (\<lparr>status = 200, body = AuthOk uid name, set_cookie = Some sessionId\<rparr>, d'))"

definition post_auth_register ::
  "(jsstring \<Rightarrow> jsstring) \<Rightarrow> db \<Rightarrow> nat \<Rightarrow> (nat \<Rightarrow> rat) \<Rightarrow> jsstring option \<Rightarrow> string option \<Rightarrow>
     response \<times> db" where
  "post_auth_register toLowerCase d now random username pin =
     (case (username, pin) of
        (Some name, Some p) \<Rightarrow>
          if falsy username \<or> falsy pin then
            (json 400 (ErrorMsg ''Username and PIN required''), d)
          else if length name < 3 \<or> length name > 20 then
            (json 400 (ErrorMsg ''Username must be 3-20 characters''), d)
          else if \<not> valid_pin p then
            (json 400 (ErrorMsg ''PIN must be 4-6 digits''), d)
          else
            (case createUser toLowerCase d now name p of
               None \<Rightarrow> (json 400 (ErrorMsg ''Username already taken''), d)
             | Some (user, d') \<Rightarrow> start_session d' now random (ru_id user) (ru_username user))
      | _ \<Rightarrow> (json 400 (ErrorMsg ''Username and PIN required''), d))"

definition post_auth_login ::
  "(jsstring \<Rightarrow> jsstring) \<Rightarrow> db \<Rightarrow> nat \<Rightarrow> (nat \<Rightarrow> rat) \<Rightarrow> jsstring option \<Rightarrow> string option \<Rightarrow>
     response \<times> db" where
  "post_auth_login toLowerCase d now random username pin =
     (case (username, pin) of
        (Some name, Some p) \<Rightarrow>
          if falsy username \<or> falsy pin then
            (json 400 (ErrorMsg ''Username and PIN required''), d)
          else
            (case verifyUser toLowerCase d name p of
               None \<Rightarrow> (json 401 (ErrorMsg ''Invalid username or PIN''), d)
             | Some user \<Rightarrow> start_session d now random (u_id user) (u_username user))
      | _ \<Rightarrow> (json 400 (ErrorMsg ''Username and PIN required''), d))"

definition post_auth_logout :: "db \<Rightarrow> string option \<Rightarrow> response \<times> db" where
  "post_auth_logout d cookie =
     (case cookie of
        None \<Rightarrow> (json 200 Success, d)
      | Some sid \<Rightarrow> (json 200 Success, if sid = [] then d else deleteSession d sid))"

section \<open>The client (app.js)\<close>

text \<open>
  \<^verbatim>\<open>toggleStation\<close> awaits one \<^verbatim>\<open>fetch\<close> after the other. The network is a parameter:
  the k-th request the method sends is answered by \<open>net k\<close>, a response with
  \<^verbatim>\<open>response.ok\<close>, a response without, or an exception. The catalogue's
  \<^verbatim>\<open>getComplexStations\<close> is a parameter too (\<open>None\<close> when the page does not define it).
  The result is the new \<^verbatim>\<open>visitedStations\<close> and the requests sent, each with its answer.
\<close>

datatype fetch_result = Ok | NotOk | NetworkError

datatype http_method = POST | DELETE

type_synonym fetch_call = "http_method \<times> string \<times> fetch_result"

fun unmark_complex ::
  "(nat \<Rightarrow> fetch_result) \<Rightarrow> string list \<Rightarrow> string list \<Rightarrow> fetch_call list \<Rightarrow>
     string list \<times> fetch_call list" where
  "unmark_complex net [] visitedStations sent = (visitedStations, sent)"
| "unmark_complex net (i # ids) visitedStations sent =
     (if i \<in> set visitedStations then
        (case net (length sent) of
           NetworkError \<Rightarrow> (visitedStations, sent @ [(DELETE, i, NetworkError)])
         | Ok \<Rightarrow> unmark_complex net ids (remove1 i visitedStations) (sent @ [(DELETE, i, Ok)])
         | NotOk \<Rightarrow> unmark_complex net ids visitedStations (sent @ [(DELETE, i, NotOk)]))
      else unmark_complex net ids visitedStations sent)"

fun mark_complex ::
  "(nat \<Rightarrow> fetch_result) \<Rightarrow> string list \<Rightarrow> string list \<Rightarrow> fetch_call list \<Rightarrow>
     string list \<times> fetch_call list" where
  "mark_complex net [] visitedStations sent = (visitedStations, sent)"
| "mark_complex net (i # ids) visitedStations sent =
     (if i \<notin> set visitedStations then
        (case net (length sent) of
           NetworkError \<Rightarrow> (visitedStations, sent @ [(POST, i, NetworkError)])
         | Ok \<Rightarrow> mark_complex net ids (visitedStations @ [i]) (sent @ [(POST, i, Ok)])
         | NotOk \<Rightarrow> mark_complex net ids visitedStations (sent @ [(POST, i, NotOk)]))
      else mark_complex net ids visitedStations sent)"

definition toggleStation ::
  "(nat \<Rightarrow> fetch_result) \<Rightarrow> (string \<Rightarrow> string list) option \<Rightarrow> string list \<Rightarrow> string \<Rightarrow>
     string list \<times> fetch_call list" where
  "toggleStation net getComplexStations visitedStations stationId =
     (let complexStations =
            (case getComplexStations of Some f \<Rightarrow> f stationId | None \<Rightarrow> [stationId]);
          isCurrentlyVisited = stationId \<in> set visitedStations
      in if isCurrentlyVisited then unmark_complex net complexStations visitedStations []
         else mark_complex net complexStations visitedStations [])"

definition succeeded :: "fetch_call list \<Rightarrow> string list" where
  \<comment> \<open>the ids whose request was answered with \<^verbatim>\<open>response.ok\<close>\<close>
  "succeeded sent = map (\<lambda>c. fst (snd c)) (filter (\<lambda>c. snd (snd c) = Ok) sent)"

text \<open>
  A complex of three stations, and a network that answers the first request and fails at
  the second.
\<close>

definition example_complex :: "string \<Rightarrow> string list" where
  "example_complex s = (if s \<in> set [''G08'', ''G09'', ''G10''] then [''G08'', ''G09'', ''G10''] else [s])"

definition example_net :: "nat \<Rightarrow> fetch_result" where
  "example_net k = (if k = 0 then Ok else NetworkError)"

text \<open>The station id and the answer of a request that was sent.\<close>

abbreviation call_id :: "fetch_call \<Rightarrow> string" where "call_id c \<equiv> fst (snd c)"
abbreviation call_result :: "fetch_call \<Rightarrow> fetch_result" where "call_result c \<equiv> snd (snd c)"

section \<open>Views of the visited table\<close>

definition row_mark :: "visited_row \<Rightarrow> nat \<times> string \<times> string" where
  \<comment> \<open>a row without its surrogate key\<close>
  "row_mark r = (v_user_id r, v_station_id r, v_visited_at r)"

definition row_key :: "visited_row \<Rightarrow> nat \<times> string" where
  "row_key r = (v_user_id r, v_station_id r)"

definition unique_marks :: "db \<Rightarrow> bool" where
  \<comment> \<open>\<^verbatim>\<open>UNIQUE(user_id, station_id)\<close>\<close>
  "unique_marks d \<longleftrightarrow> distinct (map row_key (visited_stations d))"

definition marked_row :: "db \<Rightarrow> nat \<Rightarrow> nat \<Rightarrow> string \<Rightarrow> visited_row" where
  \<comment> \<open>the row that \<^verbatim>\<open>INSERT OR REPLACE\<close> writes into the store d at the instant now\<close>
  "marked_row d now uid sid =
     \<lparr>v_id = next_rowid (visited_seq d) (map v_id (visited_stations d)), v_user_id = uid,
      v_station_id = sid, v_visited_at = sqlite_datetime now\<rparr>"

section \<open>Example stores\<close>

definition two_users_db :: db where
  \<comment> \<open>the default account of a fresh install and two registered users\<close>
  "two_users_db =
     \<lparr>users =
        [\<lparr>u_id = 1, u_username = units ''kartikye'', u_pin = ''4569'',
          u_created_at = ''2023-11-14 21:00:00''\<rparr>,
         \<lparr>u_id = 2, u_username = units ''alice'', u_pin = ''1234'',
          u_created_at = ''2023-11-14 22:00:00''\<rparr>,
         \<lparr>u_id = 3, u_username = units ''bob'', u_pin = ''9876'',
          u_created_at = ''2023-11-14 22:05:00''\<rparr>],
      sessions =
        [\<lparr>s_id = ''a1'', s_user_id = 2, s_created_at = ''2023-11-14 22:00:00'',
          s_expires_at = ''2023-12-14T22:00:00.000Z''\<rparr>,
         \<lparr>s_id = ''b2'', s_user_id = 3, s_created_at = ''2023-11-14 22:05:00'',
          s_expires_at = ''2023-12-14T22:05:00.000Z''\<rparr>],
      visited_stations =
        [\<lparr>v_id = 1, v_user_id = 2, v_station_id = ''A01'', v_visited_at = ''2023-11-14 22:10:00''\<rparr>,
         \<lparr>v_id = 2, v_user_id = 3, v_station_id = ''A01'', v_visited_at = ''2023-11-14 22:11:00''\<rparr>,
         \<lparr>v_id = 3, v_user_id = 3, v_station_id = ''B02'', v_visited_at = ''2023-11-14 22:12:00''\<rparr>],
      users_seq = 3, visited_seq = 3\<rparr>"

definition alice_calls :: "(nat \<times> string option \<times> api_request) list" where
  "alice_calls =
     [(1700000000000, Some ''a1'', PostVisited ''B02''),
      (1700000001000, Some ''a1'', DeleteVisited ''A01''),
      (1700000002000, Some ''a1'', GetVisited),
      (1700000003000, Some ''a1'', DeleteAllVisited)]"

text \<open>
  Requests of alice within one second (22:13:20 on 2023-11-14) and in the next one.
\<close>

definition once_calls :: "(nat \<times> string option \<times> api_request) list" where
  "once_calls =
     [(1700000000000, Some ''a1'', PostVisited ''B02''),
      (1700000000500, Some ''a1'', PostVisited ''A05'')]"

definition twice_calls :: "(nat \<times> string option \<times> api_request) list" where
  "twice_calls = once_calls @ [(1700000001100, Some ''a1'', PostVisited ''A05'')]"

definition same_second_calls :: "(nat \<times> string option \<times> api_request) list" where
  "same_second_calls =
     [(1700000000000, Some ''a1'', PostVisited ''B02''),
      (1700000000500, Some ''a1'', PostVisited ''A01'')]"

text \<open>
  A function for the parameter \<open>toLowerCase\<close> in the examples. On strings made of the code
  units below 256, of U+0130 (capital I with dot above) and of U+0307 (combining dot
  above) it is \<^verbatim>\<open>String.prototype.toLowerCase\<close>: the capital letters A to Z and U+00C0 to
  U+00DE (without the multiplication sign U+00D7) go to the letter 32 places later, U+0130
  goes to the two code units U+0069 U+0307, and every other of these code units stays. It
  is applied to such strings only.
\<close>

definition lower_unit :: "nat \<Rightarrow> jsstring" where
  "lower_unit c =
     (if (65 \<le> c \<and> c \<le> 90) \<or> (192 \<le> c \<and> c \<le> 222 \<and> c \<noteq> 215) then [c + 32]
      else if c = 304 then [105, 775]
      else [c])"

definition toLowerCase_latin :: "jsstring \<Rightarrow> jsstring" where
  "toLowerCase_latin s = concat (map lower_unit s)"

text \<open>
  A sequence of results of \<^verbatim>\<open>Math.random()\<close>, the session id that \<^verbatim>\<open>generateSessionId\<close> makes
  of it, the store after alice has logged in with it at 22:13:20 on 2023-11-14, and a
  store in which the account of alice does not exist.
\<close>

definition example_random :: "nat \<Rightarrow> rat" where
  "example_random i = of_nat (7 * i + 3) / 256"

definition example_token :: string where
  "example_token = ''030a11181f262d343b424950575e656c737a81888f969da4''"

definition expired_db :: db where
  "expired_db =
     snd (post_auth_login toLowerCase_latin two_users_db 1700000000000 example_random
            (Some (units ''Alice'')) (Some ''1234''))"

definition dotted_name :: jsstring where
  \<comment> \<open>i, combining dot above, a: three code units\<close>
  "dotted_name = [105, 775, 97]"

definition dotted_capital_name :: jsstring where
  \<comment> \<open>capital I with dot above, a: two code units\<close>
  "dotted_capital_name = [304, 97]"

definition no_alice_db :: db where
  "no_alice_db =
     \<lparr>users = filter (\<lambda>u. u_id u \<noteq> 2) (users two_users_db),
      sessions = filter (\<lambda>s. s_user_id s \<noteq> 2) (sessions two_users_db),
      visited_stations = filter (\<lambda>r. v_user_id r \<noteq> 2) (visited_stations two_users_db),
      users_seq = 3, visited_seq = 3\<rparr>"

text \<open>
  A file of the single-user version with one station that has no timestamp, the store
  that \<^verbatim>\<open>initSchema\<close> makes of it at 22:13:20 on 2023-11-14, that store after the default
  user has logged in a second later, and the requests of that user one hour after the
  start: a mark for B02 and the list.
\<close>

definition legacy_file :: db_file where
  "legacy_file =
     \<lparr>f_users = [], f_sessions = [], f_visited = Legacy [(''A01'', None)],
      f_users_seq = 0, f_visited_seq = 0\<rparr>"

definition migrated_db :: db where
  "migrated_db =
     \<lparr>users = [\<lparr>u_id = 1, u_username = units ''kartikye'', u_pin = ''4569'',
                u_created_at = ''2023-11-14 22:13:20''\<rparr>],
      sessions = [],
      visited_stations =
        [\<lparr>v_id = 1, v_user_id = 1, v_station_id = ''A01'',
          v_visited_at = ''2023-11-14T22:13:20.000Z''\<rparr>],
      users_seq = 1, visited_seq = 1\<rparr>"

definition migrated_session_db :: db where
  "migrated_session_db =
     snd (post_auth_login toLowerCase_latin migrated_db 1700000001000 example_random
            (Some (units ''kartikye'')) (Some ''4569''))"

definition hour_later_calls :: "(nat \<times> string option \<times> api_request) list" where
  "hour_later_calls =
     [(1700003600000, Some example_token, PostVisited ''B02''),
      (1700003600000, Some example_token, GetVisited)]"

section \<open>Code units\<close>

lemma units_eq_iff [simp]: "units a = units b \<longleftrightarrow> a = b"
  by (simp add: units_def inj_map_eq_map inj_on_def)

lemma length_units [simp]: "length (units a) = length a"
  by (simp add: units_def)

lemma units_Nil_iff [simp]: "units a = [] \<longleftrightarrow> a = []"
  by (simp add: units_def)

lemma lower_latin_examples:
  "toLowerCase_latin (units ''Alice'') = units ''alice''"
  "toLowerCase_latin (units ''alice'') = units ''alice''"
  "toLowerCase_latin (units ''kartikye'') = units ''kartikye''"
  "toLowerCase_latin (units ''Carol'') = units ''carol''"
  "toLowerCase_latin (units ''CAROL'') = units ''carol''"
  "toLowerCase_latin dotted_name = dotted_name"
  "toLowerCase_latin dotted_capital_name = dotted_name"
  by (simp_all add: toLowerCase_latin_def lower_unit_def units_def dotted_name_def
      dotted_capital_name_def)

section \<open>Evaluation of the clock texts\<close>

lemmas time_defs = toISOString_def sqlite_datetime_def date_text_def time_text_def
  civil_from_days_def pad2_def pad3_def pad4_def digit_def Let_def

lemma datetime_examples:
  "sqlite_datetime 1700000000000 = ''2023-11-14 22:13:20''"
  "sqlite_datetime 1700000001000 = ''2023-11-14 22:13:21''"
  "sqlite_datetime 1700000002000 = ''2023-11-14 22:13:22''"
  "sqlite_datetime 1700000003000 = ''2023-11-14 22:13:23''"
  unfolding time_defs by simp_all

lemma session_examples:
  "toISOString 1702592000000 = ''2023-12-14T22:13:20.000Z''"
  "sqlite_datetime 1702595600000 = ''2023-12-14 23:13:20''"
  unfolding time_defs by simp_all

lemma datetime_examples2:
  "sqlite_datetime 1700000000500 = ''2023-11-14 22:13:20''"
  "sqlite_datetime 1700000001100 = ''2023-11-14 22:13:21''"
  unfolding time_defs by simp_all

section \<open>Evaluation of the example session id\<close>

lemma upt_24: "[0..<24] = [0, 1, 2, 3, 4, 5, 6, 7, 8, 9, 10, 11, 12, 13, 14, 15, 16, 17, 18, 19, 20, 21, 22, 23]"
  by (simp add: upt_conv_Cons)

lemma example_generateSessionId: "generateSessionId example_random = example_token"
  by (simp add: generateSessionId_def example_random_def example_token_def random_byte_def
      hex2_def hexdigit_def upt_24)

section \<open>The routes leave accounts and sessions alone\<close>

lemma api_visited_users: "users (snd (api_visited d now c rq)) = users d"
  by (auto simp: api_visited_def get_visited_def post_visited_def delete_visited_station_def
      delete_all_visited_stations_def insert_or_replace_visited_def delete_visited_def
      delete_all_visited_def Let_def split: option.splits api_request.splits sum.splits if_splits)

lemma api_visited_sessions: "sessions (snd (api_visited d now c rq)) = sessions d"
  by (auto simp: api_visited_def get_visited_def post_visited_def delete_visited_station_def
      delete_all_visited_stations_def insert_or_replace_visited_def delete_visited_def
      delete_all_visited_def Let_def split: option.splits api_request.splits sum.splits if_splits)

lemma authMiddleware_cong:
  "users d' = users d \<Longrightarrow> sessions d' = sessions d \<Longrightarrow>
   authMiddleware d' now c = authMiddleware d now c"
  by (cases c) (simp_all add: authMiddleware_def getUserFromSession_def session_users_def)

lemma api_visited_unauth:
  "authMiddleware d now c = None \<Longrightarrow>
   api_visited d now c rq = (json 401 (ErrorMsg ''Authentication required''), d)"
  by (simp add: api_visited_def)

lemma api_visited_rows_of_other:
  assumes "\<forall>u. authMiddleware d now c = Some u \<longrightarrow> ru_id u \<noteq> b"
  shows "rows_of (snd (api_visited d now c rq)) b = rows_of d b"
  using assms
  by (cases "authMiddleware d now c"; cases rq)
     (auto simp: api_visited_def get_visited_def post_visited_def delete_visited_station_def
      delete_all_visited_stations_def insert_or_replace_visited_def delete_visited_def
      delete_all_visited_def rows_of_def same_mark_def Let_def
      split: sum.splits if_splits intro: filter_cong)

lemma run_api_users_sessions:
  "users (snd (run_api d calls)) = users d \<and> sessions (snd (run_api d calls)) = sessions d"
proof (induction calls arbitrary: d)
  case Nil
  then show ?case by simp
next
  case (Cons call calls)
  obtain now c rq where call: "call = (now, c, rq)" by (cases call) auto
  obtain r d' where step: "api_visited d now c rq = (r, d')" by fastforce
  have "users d' = users d" "sessions d' = sessions d"
    using api_visited_users[of d now c rq] api_visited_sessions[of d now c rq] step by simp_all
  with Cons.IH[of d'] show ?case
    by (cases "run_api d' calls") (simp add: call step)
qed

lemma run_api_rows_of_other:
  assumes "\<forall>(now, c, rq)\<in>set calls. \<forall>u. authMiddleware d now c = Some u \<longrightarrow> ru_id u \<noteq> b"
  shows "rows_of (snd (run_api d calls)) b = rows_of d b"
  using assms
proof (induction calls arbitrary: d)
  case Nil
  then show ?case by simp
next
  case (Cons call calls)
  obtain now c rq where call: "call = (now, c, rq)" by (cases call) auto
  obtain r d' where step: "api_visited d now c rq = (r, d')" by fastforce
  have us: "users d' = users d" "sessions d' = sessions d"
    using api_visited_users[of d now c rq] api_visited_sessions[of d now c rq] step by simp_all
  have here: "rows_of d' b = rows_of d b"
    using api_visited_rows_of_other[of d now c b rq] Cons.prems step call by simp
  have "\<forall>(now, c, rq)\<in>set calls. \<forall>u. authMiddleware d' now c = Some u \<longrightarrow> ru_id u \<noteq> b"
    using Cons.prems authMiddleware_cong[OF us] by auto
  from Cons.IH[OF this] here show ?case
    by (cases "run_api d' calls") (simp add: call step)
qed

lemma select_visited_rows_of:
  "select_visited d uid = map v_station_id (sort_key v_visited_at (sort_key v_station_id (rows_of d uid)))"
  by (simp add: select_visited_def select_visited_rows_def rows_of_def)

lemma map_insort_key_comp:
  "map p (insort_key (\<lambda>x. k (p x)) x xs) = insort_key k (p x) (map p xs)"
  by (induction xs) simp_all

lemma map_sort_key_comp: "map p (sort_key (\<lambda>x. k (p x)) xs) = sort_key k (map p xs)"
  by (induction xs) (simp_all add: map_insort_key_comp)

lemma select_visited_marks_of:
  "select_visited d uid = map fst (sort_key snd (sort_key fst (marks_of d uid)))"
proof -
  let ?p = "\<lambda>r. (v_station_id r, v_visited_at r)"
  have "sort_key snd (sort_key fst (map ?p (rows_of d uid))) =
        map ?p (sort_key v_visited_at (sort_key v_station_id (rows_of d uid)))"
    using map_sort_key_comp[of ?p fst "rows_of d uid"]
      map_sort_key_comp[of ?p snd "sort_key v_station_id (rows_of d uid)"]
    by simp
  then show ?thesis
    by (simp add: select_visited_rows_of marks_of_def comp_def)
qed

lemma marks_of_insert:
  assumes "insert_or_replace_visited d now uid sid = Inr d'"
  shows "marks_of d' uid = filter (\<lambda>m. fst m \<noteq> sid) (marks_of d uid) @ [(sid, sqlite_datetime now)]"
  using assms
  by (auto simp: insert_or_replace_visited_def marks_of_def rows_of_def same_mark_def Let_def
      filter_map comp_def split: if_splits intro!: arg_cong[where f="map _"] filter_cong)

lemma marks_of_delete:
  "marks_of (snd (delete_visited d uid sid)) uid = filter (\<lambda>m. fst m \<noteq> sid) (marks_of d uid)"
  by (auto simp: delete_visited_def marks_of_def rows_of_def same_mark_def filter_map comp_def
      intro!: arg_cong[where f="map _"] filter_cong)

lemma changes_delete:
  "fst (delete_visited d uid sid) = length (filter (\<lambda>m. fst m = sid) (marks_of d uid))"
proof -
  have "filter (same_mark uid sid) (visited_stations d) =
        filter (\<lambda>r. v_station_id r = sid) (rows_of d uid)"
    by (auto simp: rows_of_def same_mark_def intro: filter_cong)
  then show ?thesis
    by (simp add: delete_visited_def marks_of_def filter_map comp_def)
qed

lemma marks_of_delete_all: "marks_of (snd (delete_all_visited d uid)) uid = []"
  by (simp add: delete_all_visited_def marks_of_def rows_of_def)

lemma changes_delete_all: "fst (delete_all_visited d uid) = length (marks_of d uid)"
  by (simp add: delete_all_visited_def marks_of_def rows_of_def)

lemma api_visited_reads_own:
  assumes "users d2 = users d" "sessions d2 = sessions d" "marks_of d2 a = marks_of d a"
    and "\<forall>u. authMiddleware d now c = Some u \<longrightarrow> ru_id u = a"
  shows "fst (api_visited d2 now c rq) = fst (api_visited d now c rq) \<and>
         marks_of (snd (api_visited d2 now c rq)) a = marks_of (snd (api_visited d now c rq)) a"
proof (cases "authMiddleware d now c")
  case None
  moreover have "authMiddleware d2 now c = None"
    using None authMiddleware_cong[OF assms(1,2)] by simp
  ultimately show ?thesis
    using assms(3) by (simp add: api_visited_unauth)
next
  case (Some u)
  then have a: "ru_id u = a" using assms(4) by simp
  have au2: "authMiddleware d2 now c = Some u"
    using Some authMiddleware_cong[OF assms(1,2)] by simp
  have ex: "user_exists d2 a = user_exists d a"
    by (simp add: user_exists_def assms(1))
  show ?thesis
  proof (cases rq)
    case GetVisited
    then show ?thesis
      by (simp add: api_visited_def Some au2 a get_visited_def select_visited_marks_of assms(3))
  next
    case (PostVisited sid)
    show ?thesis
    proof (cases "user_exists d a")
      case False
      then show ?thesis
        using ex assms(3)
        by (simp add: api_visited_def Some au2 a PostVisited post_visited_def
            insert_or_replace_visited_def)
    next
      case True
      then obtain e where e: "insert_or_replace_visited d now a sid = Inr e"
        by (simp add: insert_or_replace_visited_def Let_def)
      from True ex obtain e2 where e2: "insert_or_replace_visited d2 now a sid = Inr e2"
        by (simp add: insert_or_replace_visited_def Let_def)
      show ?thesis
        using marks_of_insert[OF e] marks_of_insert[OF e2] assms(3)
        by (simp add: api_visited_def Some au2 a PostVisited post_visited_def e e2)
    qed
  next
    case (DeleteVisited sid)
    show ?thesis
      using marks_of_delete[of d a sid] marks_of_delete[of d2 a sid]
        changes_delete[of d a sid] changes_delete[of d2 a sid] assms(3)
      by (cases "delete_visited d a sid"; cases "delete_visited d2 a sid")
         (simp add: api_visited_def Some au2 a DeleteVisited delete_visited_station_def)
  next
    case DeleteAllVisited
    show ?thesis
      using marks_of_delete_all[of d a] marks_of_delete_all[of d2 a]
        changes_delete_all[of d a] changes_delete_all[of d2 a] assms(3)
      by (cases "delete_all_visited d a"; cases "delete_all_visited d2 a")
         (simp add: api_visited_def Some au2 a DeleteAllVisited delete_all_visited_stations_def)
  qed
qed

lemma run_api_reads_own:
  assumes "users d2 = users d" "sessions d2 = sessions d" "marks_of d2 a = marks_of d a"
    and "\<forall>(now, c, rq)\<in>set calls. \<forall>u. authMiddleware d now c = Some u \<longrightarrow> ru_id u = a"
  shows "fst (run_api d2 calls) = fst (run_api d calls)"
  using assms
proof (induction calls arbitrary: d d2)
  case Nil
  then show ?case by simp
next
  case (Cons call calls)
  obtain now c rq where call: "call = (now, c, rq)" by (cases call) auto
  obtain r e where step: "api_visited d now c rq = (r, e)" by fastforce
  obtain r2 e2 where step2: "api_visited d2 now c rq = (r2, e2)" by fastforce
  have auth: "\<forall>u. authMiddleware d now c = Some u \<longrightarrow> ru_id u = a"
    using Cons.prems(4) call by simp
  have same: "r2 = r" "marks_of e2 a = marks_of e a"
    using api_visited_reads_own[OF Cons.prems(1-3) auth, of rq] step step2 by simp_all
  have us: "users e = users d" "sessions e = sessions d"
    using api_visited_users[of d now c rq] api_visited_sessions[of d now c rq] step by simp_all
  have us2: "users e2 = users e" "sessions e2 = sessions e"
    using api_visited_users[of d2 now c rq] api_visited_sessions[of d2 now c rq] step2 us
      Cons.prems(1,2) by simp_all
  have rest: "\<forall>(now, c, rq)\<in>set calls. \<forall>u. authMiddleware e now c = Some u \<longrightarrow> ru_id u = a"
    using Cons.prems(4) authMiddleware_cong[OF us] by auto
  from Cons.IH[OF us2 same(2) rest] same(1) show ?case
    by (cases "run_api e calls"; cases "run_api e2 calls") (simp add: call step step2)
qed

section \<open>Isolation of the users\<close>

lemmas api_defs = api_visited_def authMiddleware_def getUserFromSession_def session_users_def
  get_visited_def post_visited_def delete_visited_station_def delete_all_visited_stations_def
  insert_or_replace_visited_def delete_visited_def delete_all_visited_def select_visited_def
  select_visited_rows_def user_exists_def same_mark_def next_rowid_def json_def rows_of_def
  marks_of_def

text \<open>
  Claim C1. The four routes under \<^verbatim>\<open>/api/visited\<close> work on the rows of the user that the
  session cookie resolves to, and on no others. Let a sequence of requests be served one
  after the other, each either rejected or made in the name of user \<open>a\<close>. Then, for every
  other user \<open>b\<close>, the rows of \<open>b\<close> in the store are the same before and after, and so is
  the list that \<open>b\<close> would be sent; that list holds station ids of rows of \<open>b\<close> only. The
  answers that \<open>a\<close> receives are the same in every store \<open>d2\<close> with the same accounts and
  sessions and the same marks of \<open>a\<close>, whatever rows the other users have there: the
  requests read the rows of \<open>a\<close> alone. Station ids play no part in this, so two users
  may mark the same one.
\<close>

theorem visited_marks_isolated:
  assumes "a \<noteq> b"
    and "\<forall>(now, cookie, rq)\<in>set calls. \<forall>u. authMiddleware d now cookie = Some u \<longrightarrow> ru_id u = a"
    and "users d2 = users d" and "sessions d2 = sessions d" and "marks_of d2 a = marks_of d a"
  shows "rows_of (snd (run_api d calls)) b = rows_of d b \<and>
         select_visited (snd (run_api d calls)) b = select_visited d b \<and>
         set (select_visited d b) = v_station_id ` set (rows_of d b) \<and>
         fst (run_api d2 calls) = fst (run_api d calls)"
proof -
  have other: "\<forall>(now, c, rq)\<in>set calls. \<forall>u. authMiddleware d now c = Some u \<longrightarrow> ru_id u \<noteq> b"
    using assms(1,2) by fastforce
  have rows: "rows_of (snd (run_api d calls)) b = rows_of d b"
    by (rule run_api_rows_of_other[OF other])
  have "set (select_visited d b) = v_station_id ` set (rows_of d b)"
    by (simp add: select_visited_rows_of)
  moreover have "fst (run_api d2 calls) = fst (run_api d calls)"
    by (rule run_api_reads_own[OF assms(3,4,5,2)])
  ultimately show ?thesis
    using rows by (simp add: select_visited_rows_of)
qed

lemma alice_session:
  "sqlite_datetime now < ''2023-12-14T22:00:00.000Z'' \<Longrightarrow>
   authMiddleware two_users_db now (Some ''a1'') = Some \<lparr>ru_id = 2, ru_username = units ''alice''\<rparr>"
  by (simp add: two_users_db_def authMiddleware_def getUserFromSession_def session_users_def)

theorem visited_marks_isolated_witness:
  "select_visited (snd (run_api two_users_db alice_calls)) 3 = [''A01'', ''B02''] \<and>
   rows_of (snd (run_api two_users_db alice_calls)) 3 = rows_of two_users_db 3 \<and>
   fst (run_api (two_users_db\<lparr>visited_stations := rows_of two_users_db 2\<rparr>) alice_calls) =
   fst (run_api two_users_db alice_calls)"
proof -
  let ?d2 = "two_users_db\<lparr>visited_stations := rows_of two_users_db 2\<rparr>"
  have calls: "\<forall>(now, cookie, rq)\<in>set alice_calls.
      \<forall>u. authMiddleware two_users_db now cookie = Some u \<longrightarrow> ru_id u = 2"
    by (simp add: alice_calls_def alice_session datetime_examples)
  have view: "users ?d2 = users two_users_db" "sessions ?d2 = sessions two_users_db"
      "marks_of ?d2 2 = marks_of two_users_db 2"
    by (simp_all add: marks_of_def rows_of_def)
  have bob: "select_visited two_users_db 3 = [''A01'', ''B02'']"
    by (simp add: two_users_db_def select_visited_def select_visited_rows_def)
  from visited_marks_isolated[OF _ calls view, of 3] bob show ?thesis
    by simp
qed

section \<open>Unmarking a station\<close>

lemma api_visited_auth:
  "authMiddleware d now c = Some user \<Longrightarrow>
   api_visited d now c rq =
     (case rq of
        GetVisited \<Rightarrow> get_visited d user
      | PostVisited stationId \<Rightarrow> post_visited d now user stationId
      | DeleteVisited stationId \<Rightarrow> delete_visited_station d user stationId
      | DeleteAllVisited \<Rightarrow> delete_all_visited_stations d user)"
  by (simp add: api_visited_def)

lemma select_visited_filter:
  "map v_station_id (sort_key v_visited_at (sort_key v_station_id (filter (\<lambda>r. v_station_id r \<noteq> s) rows))) =
   filter (\<lambda>x. x \<noteq> s) (map v_station_id (sort_key v_visited_at (sort_key v_station_id rows)))"
  by (simp add: filter_map comp_def filter_sort)

lemma rows_of_delete:
  "rows_of (snd (delete_visited d uid s)) uid = filter (\<lambda>r. v_station_id r \<noteq> s) (rows_of d uid)"
  by (auto simp: delete_visited_def rows_of_def same_mark_def intro: filter_cong)

lemma marked_iff_row:
  "s \<in> set (select_visited d uid) \<longleftrightarrow> (\<exists>r\<in>set (visited_stations d). same_mark uid s r)"
  by (auto simp: select_visited_rows_of rows_of_def same_mark_def)

lemma delete_visited_changes:
  "0 < fst (delete_visited d uid s) \<longleftrightarrow> s \<in> set (select_visited d uid)"
  by (auto simp: delete_visited_def marked_iff_row filter_empty_conv)

lemma delete_visited_absent:
  assumes "s \<notin> set (select_visited d uid)"
  shows "snd (delete_visited d uid s) = d"
proof -
  have "filter (\<lambda>r. \<not> same_mark uid s r) (visited_stations d) = visited_stations d"
    using assms by (simp add: marked_iff_row)
  then show ?thesis by (simp add: delete_visited_def)
qed

text \<open>
  Claim C6. For a request \<^verbatim>\<open>DELETE /api/visited/:stationId\<close> of an authenticated user the
  answer is 200 with \<^verbatim>\<open>deleted\<close> true exactly when the station is in the user's visited
  list, that is when a row for this user and station exists. The rows of that user and
  station are removed and every other row stays, in place; the user's list afterwards is
  the list before without that station. When the station is not marked, the whole store
  is left as it was.
\<close>

theorem unmark_reports_deleted:
  assumes "authMiddleware d now cookie = Some user"
  shows "fst (api_visited d now cookie (DeleteVisited s)) =
           json 200 (Unmarked s (s \<in> set (select_visited d (ru_id user)))) \<and>
         visited_stations (snd (api_visited d now cookie (DeleteVisited s))) =
           filter (\<lambda>r. \<not> same_mark (ru_id user) s r) (visited_stations d) \<and>
         select_visited (snd (api_visited d now cookie (DeleteVisited s))) (ru_id user) =
           filter (\<lambda>x. x \<noteq> s) (select_visited d (ru_id user)) \<and>
         (s \<notin> set (select_visited d (ru_id user)) \<longrightarrow>
            snd (api_visited d now cookie (DeleteVisited s)) = d)"
proof -
  let ?uid = "ru_id user"
  obtain n d' where del: "delete_visited d ?uid s = (n, d')" by fastforce
  have run: "api_visited d now cookie (DeleteVisited s) = (json 200 (Unmarked s (0 < n)), d')"
    by (simp add: api_visited_auth[OF assms] delete_visited_station_def del)
  have flag: "0 < n \<longleftrightarrow> s \<in> set (select_visited d ?uid)"
    using delete_visited_changes[of d ?uid s] del by simp
  have rows: "visited_stations d' = filter (\<lambda>r. \<not> same_mark ?uid s r) (visited_stations d)"
    using del by (auto simp: delete_visited_def)
  have list: "select_visited d' ?uid = filter (\<lambda>x. x \<noteq> s) (select_visited d ?uid)"
    using rows_of_delete[of d ?uid s] del
    by (simp add: select_visited_rows_of select_visited_filter)
  have same: "s \<notin> set (select_visited d ?uid) \<longrightarrow> d' = d"
    using delete_visited_absent[of s d ?uid] del by simp
  show ?thesis
    using flag rows list same by (simp add: run)
qed

theorem unmark_reports_deleted_witness:
  "api_visited two_users_db 1700000000000 (Some ''a1'') (DeleteVisited ''Z99'') =
     (json 200 (Unmarked ''Z99'' False), two_users_db) \<and>
   fst (api_visited two_users_db 1700000000000 (Some ''a1'') (DeleteVisited ''A01'')) =
     json 200 (Unmarked ''A01'' True) \<and>
   select_visited (snd (api_visited two_users_db 1700000000000 (Some ''a1'') (DeleteVisited ''A01''))) 2 = []"
proof -
  have auth: "authMiddleware two_users_db 1700000000000 (Some ''a1'') =
      Some \<lparr>ru_id = 2, ru_username = units ''alice''\<rparr>"
    by (simp add: alice_session datetime_examples)
  have list: "select_visited two_users_db 2 = [''A01'']"
    by (simp add: two_users_db_def select_visited_def select_visited_rows_def)
  from unmark_reports_deleted[OF auth, of "''Z99''"] unmark_reports_deleted[OF auth, of "''A01''"]
  show ?thesis
    by (simp add: list prod_eq_iff)
qed

section \<open>The order of the visited list\<close>

text \<open>
  For an authenticated user \<^verbatim>\<open>GET /api/visited\<close> answers 200 with the station ids of rows
  that are a rearrangement of exactly that user's rows, in ascending order of the stored
  \<^verbatim>\<open>visited_at\<close> texts (the order in which SQLite compares them), and leaves the store
  unchanged.
\<close>

lemma get_visited_sorted_on_text:
  assumes "authMiddleware d now cookie = Some user"
  shows "api_visited d now cookie GetVisited =
           (json 200 (StationIds (map v_station_id (select_visited_rows d (ru_id user)))), d) \<and>
         mset (select_visited_rows d (ru_id user)) = mset (rows_of d (ru_id user)) \<and>
         sorted (map v_visited_at (select_visited_rows d (ru_id user)))"
  by (simp add: api_visited_auth[OF assms] get_visited_def select_visited_def
      select_visited_rows_def rows_of_def)

lemma bob_session:
  "sqlite_datetime now < ''2023-12-14T22:05:00.000Z'' \<Longrightarrow>
   authMiddleware two_users_db now (Some ''b2'') = Some \<lparr>ru_id = 3, ru_username = units ''bob''\<rparr>"
  by (simp add: two_users_db_def authMiddleware_def getUserFromSession_def session_users_def)

lemma get_visited_bob:
  "api_visited two_users_db 1700000000000 (Some ''b2'') GetVisited =
     (json 200 (StationIds [''A01'', ''B02'']), two_users_db)"
proof -
  have auth: "authMiddleware two_users_db 1700000000000 (Some ''b2'') =
      Some \<lparr>ru_id = 3, ru_username = units ''bob''\<rparr>"
    by (simp add: bob_session datetime_examples)
  have rows: "map v_station_id (select_visited_rows two_users_db 3) = [''A01'', ''B02'']"
    by (simp add: two_users_db_def select_visited_rows_def)
  from get_visited_sorted_on_text[OF auth] show ?thesis
    by (simp add: rows)
qed

lemma migration_examples:
  "toISOString 1700000000000 = ''2023-11-14T22:13:20.000Z''"
  "toISOString 1702592001000 = ''2023-12-14T22:13:21.000Z''"
  "sqlite_datetime 1700003600000 = ''2023-11-14 23:13:20''"
  unfolding time_defs by simp_all

lemma legacy_initSchema: "initSchema legacy_file 1700000000000 = Inr migrated_db"
  by (simp add: initSchema_def legacy_file_def insert_user_def insert_visited_def next_rowid_def
      user_exists_def same_mark_def migrated_db_def datetime_examples migration_examples Let_def)

lemma kartikye_login:
  "post_auth_login toLowerCase_latin migrated_db 1700000001000 example_random
     (Some (units ''kartikye'')) (Some ''4569'') =
     (\<lparr>status = 200, body = AuthOk 1 (units ''kartikye''), set_cookie = Some example_token\<rparr>,
      migrated_db\<lparr>sessions :=
         [\<lparr>s_id = example_token, s_user_id = 1, s_created_at = ''2023-11-14 22:13:21'',
           s_expires_at = ''2023-12-14T22:13:21.000Z''\<rparr>]\<rparr>)"
proof -
  have v: "verifyUser toLowerCase_latin migrated_db (units ''kartikye'') ''4569'' =
      Some \<lparr>u_id = 1, u_username = units ''kartikye'', u_pin = ''4569'',
            u_created_at = ''2023-11-14 22:13:20''\<rparr>"
    by (simp add: verifyUser_def migrated_db_def lower_latin_examples)
  have ex: "user_exists migrated_db 1"
    by (simp add: migrated_db_def user_exists_def)
  have none: "sessions migrated_db = []"
    by (simp add: migrated_db_def)
  show ?thesis
    using ex none
    by (simp add: post_auth_login_def falsy_def v start_session_def createSession_def
        example_generateSessionId SESSION_MAX_AGE_def migration_examples datetime_examples Let_def)
qed

lemma migrated_session_db:
  "migrated_session_db = migrated_db\<lparr>sessions :=
         [\<lparr>s_id = example_token, s_user_id = 1, s_created_at = ''2023-11-14 22:13:21'',
           s_expires_at = ''2023-12-14T22:13:21.000Z''\<rparr>]\<rparr>"
  by (simp add: migrated_session_db_def kartikye_login)

text \<open>
  Claim C8. The list is in the order of the \<^verbatim>\<open>visited_at\<close> texts, and that is the order of
  the visit times only as long as all texts of a user have one layout. The route writes
  \<^verbatim>\<open>CURRENT_TIMESTAMP\<close>, date and time separated by a blank. \<^verbatim>\<open>initSchema\<close>, when it moves the
  rows of the single-user table to the default user, stamps a row that has no timestamp
  with \<^verbatim>\<open>new Date().toISOString()\<close>, date and time separated by the letter T, which is
  greater than the blank. The theorem evaluates the code there: the server starts at
  22:13:20 on 2023-11-14 on a file whose old table has the station A01 without timestamp,
  and the row gets the stamp of that instant; the default user logs in and, at 23:13:20 on
  the same day, marks B02 and asks for the list. The mark is answered 200 and the list is
  B02, A01: the station stamped an hour earlier comes last. (The comparison of the two
  layouts on one day is the lemma \<open>expiry_day_text\<close> of the last section.)
\<close>

theorem migrated_mark_listed_after_later_mark:
  "initSchema legacy_file 1700000000000 = Inr migrated_db \<and>
   marks_of migrated_db 1 = [(''A01'', toISOString 1700000000000)] \<and>
   authMiddleware migrated_session_db 1700003600000 (Some example_token) =
     Some \<lparr>ru_id = 1, ru_username = units ''kartikye''\<rparr> \<and>
   fst (run_api migrated_session_db hour_later_calls) =
     [json 200 (Marked ''B02''), json 200 (StationIds [''B02'', ''A01''])] \<and>
   marks_of (snd (run_api migrated_session_db hour_later_calls)) 1 =
     [(''A01'', toISOString 1700000000000), (''B02'', sqlite_datetime 1700003600000)] \<and>
   (1700000000000 :: nat) < 1700003600000"
proof -
  have marks: "marks_of migrated_db 1 = [(''A01'', toISOString 1700000000000)]"
    by (simp add: migrated_db_def marks_of_def rows_of_def migration_examples)
  have auth: "authMiddleware migrated_session_db 1700003600000 (Some example_token) =
     Some \<lparr>ru_id = 1, ru_username = units ''kartikye''\<rparr>"
    by (simp add: migrated_session_db migrated_db_def example_token_def
        authMiddleware_def getUserFromSession_def session_users_def migration_examples)
  have answers: "fst (run_api migrated_session_db hour_later_calls) =
     [json 200 (Marked ''B02''), json 200 (StationIds [''B02'', ''A01''])]"
    by (simp add: hour_later_calls_def migrated_session_db migrated_db_def example_token_def
        api_defs migration_examples)
  have rows: "visited_stations (snd (run_api migrated_session_db hour_later_calls)) =
     [\<lparr>v_id = 1, v_user_id = 1, v_station_id = ''A01'',
       v_visited_at = ''2023-11-14T22:13:20.000Z''\<rparr>,
      \<lparr>v_id = 2, v_user_id = 1, v_station_id = ''B02'',
       v_visited_at = ''2023-11-14 23:13:20''\<rparr>]"
    by (simp add: hour_later_calls_def migrated_session_db migrated_db_def example_token_def
        api_defs migration_examples)
  have after: "marks_of (snd (run_api migrated_session_db hour_later_calls)) 1 =
     [(''A01'', toISOString 1700000000000), (''B02'', sqlite_datetime 1700003600000)]"
    by (simp add: marks_of_def rows_of_def rows migration_examples)
  show ?thesis
    using legacy_initSchema marks auth answers after by simp
qed

section \<open>Marking a station\<close>

lemma session_users_exist:
  assumes "user \<in> set (session_users d now sid)"
  shows "ru_id user \<in> u_id ` set (users d)"
  using assms unfolding session_users_def
  by (auto split: if_splits)

lemma authMiddleware_Some:
  assumes "authMiddleware d now c = Some user"
  shows "\<exists>sid. c = Some sid \<and> sid \<noteq> [] \<and> user \<in> set (session_users d now sid)"
proof (cases c)
  case None
  then show ?thesis using assms by (simp add: authMiddleware_def getUserFromSession_def)
next
  case (Some sid)
  then show ?thesis
    using assms
    by (cases "session_users d now sid")
       (simp_all add: authMiddleware_def getUserFromSession_def split: if_splits)
qed

lemma authMiddleware_user_exists:
  assumes "authMiddleware d now c = Some user"
  shows "user_exists d (ru_id user)"
  using authMiddleware_Some[OF assms] session_users_exist
  by (auto simp: user_exists_def)

lemma post_visited_auth:
  assumes "authMiddleware d now c = Some user"
  shows "api_visited d now c (PostVisited s) =
           (json 200 (Marked s),
            d\<lparr>visited_stations :=
                 filter (\<lambda>r. \<not> same_mark (ru_id user) s r) (visited_stations d) @
                 [marked_row d now (ru_id user) s],
               visited_seq := next_rowid (visited_seq d) (map v_id (visited_stations d))\<rparr>)"
  using authMiddleware_user_exists[OF assms]
  by (simp add: api_visited_def assms post_visited_def insert_or_replace_visited_def Let_def
      marked_row_def)

lemma same_mark_marked_row [simp]: "same_mark uid s (marked_row d now uid s)"
  by (simp add: same_mark_def marked_row_def)

lemma row_key_marked_row [simp]: "row_key (marked_row d now uid s) = (uid, s)"
  by (simp add: row_key_def marked_row_def)

lemma row_mark_marked_row [simp]:
  "row_mark (marked_row d now uid s) = (uid, s, sqlite_datetime now)"
  by (simp add: row_mark_def marked_row_def)

lemma same_mark_row_key: "same_mark uid s r \<longleftrightarrow> row_key r = (uid, s)"
  by (auto simp: same_mark_def row_key_def)

lemma count_list_map_filter: "count_list (map f xs) y = length (filter (\<lambda>x. f x = y) xs)"
  by (induction xs) simp_all

lemma length_filter_sort_key: "length (filter P (sort_key f xs)) = length (filter P xs)"
  by (simp add: filter_sort)

lemma count_select_visited:
  "count_list (select_visited d uid) s = length (filter (same_mark uid s) (visited_stations d))"
proof -
  have "filter (\<lambda>r. v_station_id r = s) (rows_of d uid) = filter (same_mark uid s) (visited_stations d)"
    by (auto simp: rows_of_def same_mark_def intro: filter_cong)
  then show ?thesis
    by (simp add: select_visited_rows_of count_list_map_filter length_filter_sort_key)
qed

lemma sort_key_append_greatest:
  assumes "\<forall>y\<in>set ys. f y < f x"
  shows "sort_key f (sort_key g (ys @ [x])) = sort_key f (sort_key g ys) @ [x]"
proof (rule properties_for_sort_key)
  show "mset (sort_key f (sort_key g ys) @ [x]) = mset (sort_key g (ys @ [x]))"
    by simp
  show "sorted (map f (sort_key f (sort_key g ys) @ [x]))"
    using assms by (auto simp: sorted_append less_imp_le)
  fix k
  assume "k \<in> set (sort_key f (sort_key g ys) @ [x])"
  then consider "k = x" | "k \<in> set ys" by auto
  then show "filter (\<lambda>y. f k = f y) (sort_key f (sort_key g ys) @ [x]) =
             filter (\<lambda>y. f k = f y) (sort_key g (ys @ [x]))"
  proof cases
    case 1
    have none: "filter (\<lambda>y. f x = f y) ys = []"
      using assms by (auto simp: filter_empty_conv)
    show ?thesis
      by (simp add: 1 filter_sort none)
  next
    case 2
    then have ne: "f k \<noteq> f x" using assms by auto
    have "filter (\<lambda>y. f y = f k) (sort_key f (sort_key g ys)) =
          filter (\<lambda>y. f y = f k) (sort_key g ys)"
      by (rule sort_key_stable)
    moreover have "filter (\<lambda>y. f y = f k) (sort_key g (ys @ [x])) =
          filter (\<lambda>y. f y = f k) (sort_key g ys)"
      using ne by (simp add: filter_sort)
    ultimately show ?thesis
      using ne by (simp add: eq_commute[of "f k"])
  qed
qed

text \<open>
  Claim C3, as amended. Let an authenticated user send \<^verbatim>\<open>POST /api/visited/:stationId\<close>
  for the same station twice in a row, at the instants \<open>t1\<close> and \<open>t2\<close>, to a store that
  satisfies \<^verbatim>\<open>UNIQUE(user_id, station_id)\<close>. Both requests are answered 200. After the
  second one the pairs of user and station in the table are those after the first one;
  the constraint holds after each request; the table has exactly one row for this user
  and station, and the user's visited list contains the station exactly once. The rows
  are, up to the surrogate row id, those that a single request at \<open>t2\<close> leaves: the row
  of the first request is deleted and written again with a fresh id and the timestamp of
  the second request. So the store is in general not the one that the first request
  alone leaves.
\<close>

theorem mark_twice_one_row:
  assumes "authMiddleware d t1 cookie = Some user" and "authMiddleware d t2 cookie = Some user"
    and "unique_marks d"
  shows "let d1 = snd (api_visited d t1 cookie (PostVisited s));
             d2 = snd (api_visited d1 t2 cookie (PostVisited s));
             once = snd (api_visited d t2 cookie (PostVisited s))
         in fst (api_visited d t1 cookie (PostVisited s)) = json 200 (Marked s) \<and>
            fst (api_visited d1 t2 cookie (PostVisited s)) = json 200 (Marked s) \<and>
            set (map row_key (visited_stations d2)) = set (map row_key (visited_stations d1)) \<and>
            map row_mark (visited_stations d2) = map row_mark (visited_stations once) \<and>
            unique_marks d1 \<and> unique_marks d2 \<and>
            length (filter (same_mark (ru_id user) s) (visited_stations d2)) = 1 \<and>
            count_list (select_visited d2 (ru_id user)) s = 1"
proof -
  let ?u = "ru_id user"
  let ?keep = "filter (\<lambda>r. \<not> same_mark ?u s r) (visited_stations d)"
  define d1 where "d1 = snd (api_visited d t1 cookie (PostVisited s))"
  define d2 where "d2 = snd (api_visited d1 t2 cookie (PostVisited s))"
  define once where "once = snd (api_visited d t2 cookie (PostVisited s))"
  have au1: "authMiddleware d1 t2 cookie = Some user"
    using assms(2) api_visited_users[of d t1 cookie "PostVisited s"]
      api_visited_sessions[of d t1 cookie "PostVisited s"] authMiddleware_cong[of d1 d t2 cookie]
    by (simp add: d1_def)
  have v1: "visited_stations d1 = ?keep @ [marked_row d t1 ?u s]"
    by (simp add: d1_def post_visited_auth[OF assms(1)])
  have v2: "visited_stations d2 = ?keep @ [marked_row d1 t2 ?u s]"
    by (simp add: d2_def post_visited_auth[OF au1] v1)
  have vo: "visited_stations once = ?keep @ [marked_row d t2 ?u s]"
    by (simp add: once_def post_visited_auth[OF assms(2)])
  have keys: "(?u, s) \<notin> set (map row_key ?keep)"
    by (auto simp: same_mark_row_key)
  have dk: "distinct (map row_key ?keep)"
    using assms(3) by (simp add: unique_marks_def distinct_map_filter)
  have one: "filter (same_mark ?u s) (visited_stations d2) = [marked_row d1 t2 ?u s]"
    by (simp add: v2)
  have "fst (api_visited d t1 cookie (PostVisited s)) = json 200 (Marked s) \<and>
        fst (api_visited d1 t2 cookie (PostVisited s)) = json 200 (Marked s) \<and>
        set (map row_key (visited_stations d2)) = set (map row_key (visited_stations d1)) \<and>
        map row_mark (visited_stations d2) = map row_mark (visited_stations once) \<and>
        unique_marks d1 \<and> unique_marks d2 \<and>
        length (filter (same_mark (ru_id user) s) (visited_stations d2)) = 1 \<and>
        count_list (select_visited d2 (ru_id user)) s = 1"
    using keys dk
    by (simp add: post_visited_auth[OF assms(1)] post_visited_auth[OF au1]
        v1 v2 vo unique_marks_def count_select_visited one)
  then show ?thesis
    by (simp add: d1_def d2_def once_def Let_def)
qed

theorem mark_twice_one_row_witness:
  "unique_marks two_users_db \<and>
   count_list
     (select_visited
        (snd (api_visited (snd (api_visited two_users_db 1700000000500 (Some ''a1'') (PostVisited ''A05'')))
                1700000001100 (Some ''a1'') (PostVisited ''A05''))) 2) ''A05'' = 1"
proof -
  have a1: "authMiddleware two_users_db 1700000000500 (Some ''a1'') =
      Some \<lparr>ru_id = 2, ru_username = units ''alice''\<rparr>"
    by (simp add: alice_session datetime_examples2)
  have a2: "authMiddleware two_users_db 1700000001100 (Some ''a1'') =
      Some \<lparr>ru_id = 2, ru_username = units ''alice''\<rparr>"
    by (simp add: alice_session datetime_examples2)
  have u: "unique_marks two_users_db"
    by (simp add: unique_marks_def two_users_db_def row_key_def)
  from mark_twice_one_row[OF a1 a2 u, of "''A05''"] u show ?thesis
    by (simp add: Let_def)
qed

lemma once_rows: "visited_stations (snd (run_api two_users_db once_calls)) =
   [\<lparr>v_id = 1, v_user_id = 2, v_station_id = ''A01'', v_visited_at = ''2023-11-14 22:10:00''\<rparr>,
    \<lparr>v_id = 2, v_user_id = 3, v_station_id = ''A01'', v_visited_at = ''2023-11-14 22:11:00''\<rparr>,
    \<lparr>v_id = 3, v_user_id = 3, v_station_id = ''B02'', v_visited_at = ''2023-11-14 22:12:00''\<rparr>,
    \<lparr>v_id = 4, v_user_id = 2, v_station_id = ''B02'', v_visited_at = ''2023-11-14 22:13:20''\<rparr>,
    \<lparr>v_id = 5, v_user_id = 2, v_station_id = ''A05'', v_visited_at = ''2023-11-14 22:13:20''\<rparr>]"
  by (simp add: once_calls_def two_users_db_def api_defs datetime_examples datetime_examples2)

lemma twice_rows: "visited_stations (snd (run_api two_users_db twice_calls)) =
   [\<lparr>v_id = 1, v_user_id = 2, v_station_id = ''A01'', v_visited_at = ''2023-11-14 22:10:00''\<rparr>,
    \<lparr>v_id = 2, v_user_id = 3, v_station_id = ''A01'', v_visited_at = ''2023-11-14 22:11:00''\<rparr>,
    \<lparr>v_id = 3, v_user_id = 3, v_station_id = ''B02'', v_visited_at = ''2023-11-14 22:12:00''\<rparr>,
    \<lparr>v_id = 4, v_user_id = 2, v_station_id = ''B02'', v_visited_at = ''2023-11-14 22:13:20''\<rparr>,
    \<lparr>v_id = 6, v_user_id = 2, v_station_id = ''A05'', v_visited_at = ''2023-11-14 22:13:21''\<rparr>]"
  by (simp add: twice_calls_def once_calls_def two_users_db_def api_defs datetime_examples datetime_examples2)

text \<open>
  Claim C3 as it was stated fails. In the store \<open>two_users_db\<close> alice marks B02 and then
  A05 within the same second; her list is A01, A05, B02 (equal timestamps come out by
  station id). She marks A05 once more in the next second: the list is now A01, B02, A05,
  and the store differs from the one after the single request.
\<close>

theorem mark_twice_differs_from_once:
  "select_visited (snd (run_api two_users_db once_calls)) 2 = [''A01'', ''A05'', ''B02''] \<and>
   select_visited (snd (run_api two_users_db twice_calls)) 2 = [''A01'', ''B02'', ''A05''] \<and>
   snd (run_api two_users_db twice_calls) \<noteq> snd (run_api two_users_db once_calls)"
proof -
  have l1: "select_visited (snd (run_api two_users_db once_calls)) 2 = [''A01'', ''A05'', ''B02'']"
    by (simp add: select_visited_def select_visited_rows_def once_rows)
  have l2: "select_visited (snd (run_api two_users_db twice_calls)) 2 = [''A01'', ''B02'', ''A05'']"
    by (simp add: select_visited_def select_visited_rows_def twice_rows)
  have "snd (run_api two_users_db twice_calls) \<noteq> snd (run_api two_users_db once_calls)"
  proof
    assume "snd (run_api two_users_db twice_calls) = snd (run_api two_users_db once_calls)"
    then have "select_visited (snd (run_api two_users_db twice_calls)) 2 =
               select_visited (snd (run_api two_users_db once_calls)) 2"
      by simp
    then show False by (simp add: l1 l2)
  qed
  with l1 l2 show ?thesis by simp
qed

section \<open>Marking a station again\<close>

text \<open>
  Claim C10, as amended. Let an authenticated user send \<^verbatim>\<open>POST /api/visited/:stationId\<close>
  for a station that is already in the user's list, at an instant whose
  \<^verbatim>\<open>CURRENT_TIMESTAMP\<close> text (the time in whole seconds) is greater than the
  \<^verbatim>\<open>visited_at\<close> of every other row of that user. The request is answered 200; the user's
  row for the station is replaced by a new row with a fresh id and that timestamp; the
  user's list is the list before with the station moved to the last position, and it has
  the same elements as before.
\<close>

theorem remark_moves_last:
  assumes "authMiddleware d now cookie = Some user"
    and "s \<in> set (select_visited d (ru_id user))"
    and "\<forall>r\<in>set (rows_of d (ru_id user)). v_station_id r \<noteq> s \<longrightarrow> v_visited_at r < sqlite_datetime now"
  shows "fst (api_visited d now cookie (PostVisited s)) = json 200 (Marked s) \<and>
         rows_of (snd (api_visited d now cookie (PostVisited s))) (ru_id user) =
           filter (\<lambda>r. v_station_id r \<noteq> s) (rows_of d (ru_id user)) @
           [marked_row d now (ru_id user) s] \<and>
         select_visited (snd (api_visited d now cookie (PostVisited s))) (ru_id user) =
           filter (\<lambda>x. x \<noteq> s) (select_visited d (ru_id user)) @ [s] \<and>
         set (select_visited (snd (api_visited d now cookie (PostVisited s))) (ru_id user)) =
           set (select_visited d (ru_id user))"
proof -
  let ?u = "ru_id user"
  let ?d' = "snd (api_visited d now cookie (PostVisited s))"
  let ?kept = "filter (\<lambda>r. v_station_id r \<noteq> s) (rows_of d ?u)"
  let ?new = "marked_row d now ?u s"
  have rows: "rows_of ?d' ?u = ?kept @ [?new]"
    by (auto simp: post_visited_auth[OF assms(1)] rows_of_def same_mark_def marked_row_def
        intro: filter_cong)
  have lt: "\<forall>r\<in>set ?kept. v_visited_at r < v_visited_at ?new"
    using assms(3) by (simp add: marked_row_def)
  have "select_visited ?d' ?u =
        map v_station_id (sort_key v_visited_at (sort_key v_station_id ?kept) @ [?new])"
    by (simp only: select_visited_rows_of rows sort_key_append_greatest[OF lt])
  also have "\<dots> = filter (\<lambda>x. x \<noteq> s) (select_visited d ?u) @ [s]"
    by (simp add: select_visited_rows_of filter_map comp_def filter_sort marked_row_def)
  finally have list: "select_visited ?d' ?u = filter (\<lambda>x. x \<noteq> s) (select_visited d ?u) @ [s]" .
  have "set (select_visited ?d' ?u) = set (select_visited d ?u)"
    using assms(2) by (auto simp: list)
  with rows list show ?thesis
    by (simp add: post_visited_auth[OF assms(1)])
qed

theorem remark_moves_last_witness:
  "select_visited (snd (api_visited two_users_db 1700000000000 (Some ''b2'') (PostVisited ''A01''))) 3 =
     [''B02'', ''A01'']"
proof -
  have auth: "authMiddleware two_users_db 1700000000000 (Some ''b2'') =
      Some \<lparr>ru_id = 3, ru_username = units ''bob''\<rparr>"
    by (simp add: bob_session datetime_examples)
  have list: "select_visited two_users_db 3 = [''A01'', ''B02'']"
    by (simp add: two_users_db_def select_visited_def select_visited_rows_def)
  have earlier: "\<forall>r\<in>set (rows_of two_users_db 3).
      v_station_id r \<noteq> ''A01'' \<longrightarrow> v_visited_at r < sqlite_datetime 1700000000000"
    by (simp add: two_users_db_def rows_of_def datetime_examples)
  from remark_moves_last[OF auth _ _, of "''A01''"] list earlier show ?thesis
    by simp
qed

text \<open>
  Claim C10 as it was stated fails: without the condition on the timestamps the station
  need not become the last one. In \<open>two_users_db\<close> the list of alice is A01. She marks
  B02 and, within the same second, A01 again: both rows carry the same \<^verbatim>\<open>visited_at\<close>,
  and the list is A01, B02.
\<close>

theorem remark_in_same_second_not_last:
  "select_visited two_users_db 2 = [''A01''] \<and>
   select_visited (snd (run_api two_users_db same_second_calls)) 2 = [''A01'', ''B02''] \<and>
   last (select_visited (snd (run_api two_users_db same_second_calls)) 2) \<noteq> ''A01''"
proof -
  have rows: "visited_stations (snd (run_api two_users_db same_second_calls)) =
   [\<lparr>v_id = 2, v_user_id = 3, v_station_id = ''A01'', v_visited_at = ''2023-11-14 22:11:00''\<rparr>,
    \<lparr>v_id = 3, v_user_id = 3, v_station_id = ''B02'', v_visited_at = ''2023-11-14 22:12:00''\<rparr>,
    \<lparr>v_id = 4, v_user_id = 2, v_station_id = ''B02'', v_visited_at = ''2023-11-14 22:13:20''\<rparr>,
    \<lparr>v_id = 5, v_user_id = 2, v_station_id = ''A01'', v_visited_at = ''2023-11-14 22:13:20''\<rparr>]"
    by (simp add: same_second_calls_def two_users_db_def api_defs datetime_examples datetime_examples2)
  have l0: "select_visited two_users_db 2 = [''A01'']"
    by (simp add: two_users_db_def select_visited_def select_visited_rows_def)
  have l1: "select_visited (snd (run_api two_users_db same_second_calls)) 2 = [''A01'', ''B02'']"
    by (simp add: select_visited_def select_visited_rows_def rows)
  show ?thesis by (simp add: l0 l1)
qed

section \<open>Requests without a valid session\<close>

lemma alice_login:
  "post_auth_login toLowerCase_latin two_users_db 1700000000000 example_random
     (Some (units ''Alice'')) (Some ''1234'') =
     (\<lparr>status = 200, body = AuthOk 2 (units ''alice''), set_cookie = Some example_token\<rparr>,
      two_users_db\<lparr>sessions := sessions two_users_db @
         [\<lparr>s_id = example_token, s_user_id = 2, s_created_at = ''2023-11-14 22:13:20'',
           s_expires_at = ''2023-12-14T22:13:20.000Z''\<rparr>]\<rparr>)"
proof -
  have v: "verifyUser toLowerCase_latin two_users_db (units ''Alice'') ''1234'' =
      Some \<lparr>u_id = 2, u_username = units ''alice'', u_pin = ''1234'',
            u_created_at = ''2023-11-14 22:00:00''\<rparr>"
    by (simp add: verifyUser_def two_users_db_def lower_latin_examples)
  have fresh: "example_token \<notin> set (map s_id (sessions two_users_db))"
    by (simp add: two_users_db_def example_token_def)
  have ex: "user_exists two_users_db 2"
    by (simp add: two_users_db_def user_exists_def)
  show ?thesis
    using fresh ex
    by (simp add: post_auth_login_def falsy_def v start_session_def createSession_def
        example_generateSessionId SESSION_MAX_AGE_def session_examples datetime_examples Let_def)
qed

text \<open>
  Claim C2. A request under \<^verbatim>\<open>/api/visited\<close> whose session cookie is missing, empty,
  unknown or deleted is answered 401 and leaves the store as it is (the two lemmas after
  the theorem). A session past its expiry is not always treated so. \<^verbatim>\<open>expires_at\<close> is
  written in the layout of \<^verbatim>\<open>toISOString\<close> and compared as text with \<^verbatim>\<open>datetime('now')\<close>;
  on the day of the expiry both begin with the same date, and the letter T that follows
  it in \<^verbatim>\<open>expires_at\<close> is greater than the blank that follows it in the other text, whatever
  the time of day. The theorem evaluates the routes there: alice logs in at 22:13:20 on
  2023-11-14, the session expires 30 days later at 22:13:20 on 2023-12-14, and a request
  with its cookie at 23:13:20 on that day, one hour after the expiry, still resolves to
  alice, is answered 200 and inserts a row, while the same request without a cookie is
  answered 401. The last section shows the same for every session and every instant of
  its expiry day.
\<close>

theorem expired_session_still_accepted:
  "sessions expired_db = sessions two_users_db @
     [\<lparr>s_id = example_token, s_user_id = 2, s_created_at = ''2023-11-14 22:13:20'',
       s_expires_at = toISOString (1700000000000 + SESSION_MAX_AGE)\<rparr>] \<and>
   1700000000000 + SESSION_MAX_AGE < (1702595600000::nat) \<and>
   authMiddleware expired_db 1702595600000 (Some example_token) =
     Some \<lparr>ru_id = 2, ru_username = units ''alice''\<rparr> \<and>
   fst (api_visited expired_db 1702595600000 (Some example_token) (PostVisited ''Z99'')) =
     json 200 (Marked ''Z99'') \<and>
   visited_stations (snd (api_visited expired_db 1702595600000 (Some example_token) (PostVisited ''Z99''))) =
     visited_stations expired_db @
     [\<lparr>v_id = 4, v_user_id = 2, v_station_id = ''Z99'', v_visited_at = ''2023-12-14 23:13:20''\<rparr>] \<and>
   fst (api_visited expired_db 1702595600000 None (PostVisited ''Z99'')) =
     json 401 (ErrorMsg ''Authentication required'')"
proof -
  have db: "expired_db = two_users_db\<lparr>sessions := sessions two_users_db @
         [\<lparr>s_id = example_token, s_user_id = 2, s_created_at = ''2023-11-14 22:13:20'',
           s_expires_at = ''2023-12-14T22:13:20.000Z''\<rparr>]\<rparr>"
    by (simp add: expired_db_def alice_login)
  have auth: "authMiddleware expired_db 1702595600000 (Some example_token) =
     Some \<lparr>ru_id = 2, ru_username = units ''alice''\<rparr>"
    by (simp add: db two_users_db_def example_token_def authMiddleware_def getUserFromSession_def
        session_users_def session_examples)
  have rows: "visited_stations (snd (api_visited expired_db 1702595600000 (Some example_token) (PostVisited ''Z99''))) =
     visited_stations expired_db @
     [\<lparr>v_id = 4, v_user_id = 2, v_station_id = ''Z99'', v_visited_at = ''2023-12-14 23:13:20''\<rparr>]"
    by (simp add: post_visited_auth[OF auth] marked_row_def session_examples)
       (simp add: db two_users_db_def same_mark_def next_rowid_def)
  have none: "authMiddleware expired_db 1702595600000 None = None"
    by (simp add: authMiddleware_def getUserFromSession_def)
  show ?thesis
    using rows
    by (simp add: post_visited_auth[OF auth] api_visited_unauth[OF none] auth)
       (simp add: db session_examples SESSION_MAX_AGE_def)
qed

lemma unknown_session_rejected:
  assumes "cookie = None \<or> cookie = Some [] \<or> (\<exists>sid. cookie = Some sid \<and> sid \<notin> s_id ` set (sessions d))"
  shows "api_visited d now cookie rq = (json 401 (ErrorMsg ''Authentication required''), d)"
proof -
  have "authMiddleware d now cookie = None"
  proof (cases cookie)
    case None
    then show ?thesis by (simp add: authMiddleware_def getUserFromSession_def)
  next
    case (Some sid)
    show ?thesis
    proof (cases "sid = []")
      case True
      then show ?thesis by (simp add: Some authMiddleware_def getUserFromSession_def)
    next
      case False
      then have "sid \<notin> s_id ` set (sessions d)" using assms Some by auto
      then have "session_users d now sid = []"
        by (auto simp: session_users_def)
      then show ?thesis by (simp add: Some authMiddleware_def getUserFromSession_def)
    qed
  qed
  then show ?thesis by (rule api_visited_unauth)
qed

lemma deleted_session_rejected:
  "api_visited (deleteSession d sid) now (Some sid) rq =
     (json 401 (ErrorMsg ''Authentication required''), deleteSession d sid)"
  by (rule unknown_session_rejected) (auto simp: deleteSession_def)

section \<open>Failed logins\<close>

lemma verifyUser_None:
  "verifyUser toLowerCase d h p = None \<longleftrightarrow>
     (\<forall>u\<in>set (users d). \<not> (u_username u = toLowerCase h \<and> u_pin u = p))"
proof (cases "filter (\<lambda>u. u_username u = toLowerCase h \<and> u_pin u = p) (users d)")
  case Nil
  then show ?thesis by (simp add: verifyUser_def filter_empty_conv)
next
  case (Cons u us)
  then have "u \<in> set (filter (\<lambda>u. u_username u = toLowerCase h \<and> u_pin u = p) (users d))"
    by simp
  then have "\<exists>u\<in>set (users d). u_username u = toLowerCase h \<and> u_pin u = p"
    by auto
  then show ?thesis by (auto simp: verifyUser_def Cons)
qed

lemma login_no_match:
  assumes "\<forall>u\<in>set (users d). \<not> (u_username u = toLowerCase h \<and> u_pin u = p)"
  shows "post_auth_login toLowerCase d now random (Some h) (Some p) =
           (if h = [] \<or> p = [] then json 400 (ErrorMsg ''Username and PIN required'')
            else json 401 (ErrorMsg ''Invalid username or PIN''), d)"
  using assms verifyUser_None[of toLowerCase d h p]
  by (simp add: post_auth_login_def falsy_def)

text \<open>
  Claim C5. Take a login attempt with handle \<open>h\<close> and credential \<open>p\<close>, and any two stores in
  which no user has the lowercased \<open>h\<close> as name together with exactly \<open>p\<close> as PIN; in one the
  name may exist with another PIN, in the other not at all. \<^verbatim>\<open>POST /auth/login\<close> gives the
  same answer in both, sets no cookie and changes neither store; when both fields are
  non-empty the answer is 401 with the body \<^verbatim>\<open>Invalid username or PIN\<close>. This holds
  whatever function \<open>toLowerCase\<close> is.
\<close>

theorem login_failure_uniform:
  assumes "\<forall>u\<in>set (users d1). \<not> (u_username u = toLowerCase h \<and> u_pin u = p)"
    and "\<forall>u\<in>set (users d2). \<not> (u_username u = toLowerCase h \<and> u_pin u = p)"
  shows "fst (post_auth_login toLowerCase d1 now1 random1 (Some h) (Some p)) =
         fst (post_auth_login toLowerCase d2 now2 random2 (Some h) (Some p)) \<and>
         snd (post_auth_login toLowerCase d1 now1 random1 (Some h) (Some p)) = d1 \<and>
         snd (post_auth_login toLowerCase d2 now2 random2 (Some h) (Some p)) = d2 \<and>
         (h \<noteq> [] \<and> p \<noteq> [] \<longrightarrow>
            fst (post_auth_login toLowerCase d1 now1 random1 (Some h) (Some p)) =
              json 401 (ErrorMsg ''Invalid username or PIN''))"
  by (simp add: login_no_match[of d1 toLowerCase h p, OF assms(1)]
      login_no_match[of d2 toLowerCase h p, OF assms(2)])

theorem login_failure_uniform_witness:
  "fst (post_auth_login toLowerCase_latin two_users_db 1700000000000 example_random
          (Some (units ''alice'')) (Some ''0000'')) =
     json 401 (ErrorMsg ''Invalid username or PIN'') \<and>
   fst (post_auth_login toLowerCase_latin no_alice_db 1700000000000 example_random
          (Some (units ''alice'')) (Some ''0000'')) =
     json 401 (ErrorMsg ''Invalid username or PIN'') \<and>
   units ''alice'' \<in> set (map u_username (users two_users_db)) \<and>
   units ''alice'' \<notin> set (map u_username (users no_alice_db))"
proof -
  have h1: "\<forall>u\<in>set (users two_users_db).
      \<not> (u_username u = toLowerCase_latin (units ''alice'') \<and> u_pin u = ''0000'')"
    by (simp add: two_users_db_def)
  have h2: "\<forall>u\<in>set (users no_alice_db).
      \<not> (u_username u = toLowerCase_latin (units ''alice'') \<and> u_pin u = ''0000'')"
    by (simp add: no_alice_db_def two_users_db_def)
  have names: "units ''alice'' \<in> set (map u_username (users two_users_db))"
      "units ''alice'' \<notin> set (map u_username (users no_alice_db))"
    by (simp_all add: no_alice_db_def two_users_db_def)
  from login_failure_uniform[of two_users_db toLowerCase_latin "units ''alice''" "''0000''"
      no_alice_db 1700000000000 example_random 1700000000000 example_random, OF h1 h2]
    names show ?thesis
    by auto
qed

section \<open>Registering a taken name\<close>

lemma valid_pin_nonempty: "valid_pin p \<Longrightarrow> p \<noteq> []"
  by (auto simp: valid_pin_def)

lemma start_session_users: "users (snd (start_session d now random uid name)) = users d"
  by (auto simp: start_session_def createSession_def Let_def split: sum.splits if_splits)

lemma createUser_taken:
  "toLowerCase h \<in> set (map u_username (users d)) \<Longrightarrow> createUser toLowerCase d now h p = None"
  by (simp add: createUser_def insert_user_def)

lemma createUser_users:
  "createUser toLowerCase d now h p = Some (user, d') \<Longrightarrow> toLowerCase h \<in> u_username ` set (users d')"
  by (auto simp: createUser_def insert_user_def Let_def split: if_splits)

lemma register_success:
  assumes "post_auth_register toLowerCase d0 t0 r0 (Some h) (Some p) = (resp, d1)"
    and "status resp = 200"
  shows "3 \<le> length h \<and> length h \<le> 20 \<and> toLowerCase h \<in> u_username ` set (users d1)"
proof -
  have len: "3 \<le> length h \<and> length h \<le> 20"
    using assms by (auto simp: post_auth_register_def json_def split: if_splits)
  have nonempty: "\<not> falsy (Some h)" "\<not> falsy (Some p)" "valid_pin p"
    using assms by (auto simp: post_auth_register_def json_def split: if_splits)
  obtain user d' where cu: "createUser toLowerCase d0 t0 h p = Some (user, d')"
    using assms len nonempty
    by (cases "createUser toLowerCase d0 t0 h p") (auto simp: post_auth_register_def json_def)
  have d1: "d1 = snd (start_session d' t0 r0 (ru_id user) (ru_username user))"
    using assms(1) len nonempty cu by (simp add: post_auth_register_def)
  have "toLowerCase h \<in> u_username ` set (users d')"
    using cu by (rule createUser_users)
  then show ?thesis
    using len by (simp add: d1 start_session_users)
qed

lemma register_dotted_name:
  "post_auth_register toLowerCase_latin two_users_db 1700000000000 example_random
     (Some dotted_name) (Some ''1234'') =
     (\<lparr>status = 200, body = AuthOk 4 dotted_name, set_cookie = Some example_token\<rparr>,
      two_users_db\<lparr>users := users two_users_db @
         [\<lparr>u_id = 4, u_username = dotted_name, u_pin = ''1234'',
           u_created_at = ''2023-11-14 22:13:20''\<rparr>],
         users_seq := 4,
         sessions := sessions two_users_db @
         [\<lparr>s_id = example_token, s_user_id = 4, s_created_at = ''2023-11-14 22:13:20'',
           s_expires_at = ''2023-12-14T22:13:20.000Z''\<rparr>]\<rparr>)"
proof -
  have pin: "valid_pin ''1234''"
    by (simp add: valid_pin_def is_digit_def)
  have len: "length dotted_name = 3"
    by (simp add: dotted_name_def)
  have new: "dotted_name \<notin> set (map u_username (users two_users_db))"
    by (simp add: two_users_db_def dotted_name_def units_def)
  have cu: "createUser toLowerCase_latin two_users_db 1700000000000 dotted_name ''1234'' =
      Some (\<lparr>ru_id = 4, ru_username = dotted_name\<rparr>,
            two_users_db\<lparr>users := users two_users_db @
              [\<lparr>u_id = 4, u_username = dotted_name, u_pin = ''1234'',
                u_created_at = ''2023-11-14 22:13:20''\<rparr>],
              users_seq := 4\<rparr>)"
    using new
    by (simp add: createUser_def insert_user_def lower_latin_examples Let_def datetime_examples)
       (simp add: two_users_db_def next_rowid_def)
  have fresh: "example_token \<notin> set (map s_id (sessions two_users_db))"
    by (simp add: two_users_db_def example_token_def)
  have nonempty: "dotted_name \<noteq> []"
    by (simp add: dotted_name_def)
  show ?thesis
    using fresh nonempty
    by (simp add: post_auth_register_def falsy_def pin len cu start_session_def createSession_def
        example_generateSessionId SESSION_MAX_AGE_def session_examples datetime_examples Let_def
        user_exists_def)
qed

lemma carol_register:
  "post_auth_register toLowerCase_latin two_users_db 1700000000000 example_random
     (Some (units ''Carol'')) (Some ''4321'') =
     (\<lparr>status = 200, body = AuthOk 4 (units ''carol''), set_cookie = Some example_token\<rparr>,
      two_users_db\<lparr>users := users two_users_db @
         [\<lparr>u_id = 4, u_username = units ''carol'', u_pin = ''4321'',
           u_created_at = ''2023-11-14 22:13:20''\<rparr>],
         users_seq := 4,
         sessions := sessions two_users_db @
         [\<lparr>s_id = example_token, s_user_id = 4, s_created_at = ''2023-11-14 22:13:20'',
           s_expires_at = ''2023-12-14T22:13:20.000Z''\<rparr>]\<rparr>)"
proof -
  have pin: "valid_pin ''4321''"
    by (simp add: valid_pin_def is_digit_def)
  have new: "units ''carol'' \<notin> set (map u_username (users two_users_db))"
    by (simp add: two_users_db_def)
  have cu: "createUser toLowerCase_latin two_users_db 1700000000000 (units ''Carol'') ''4321'' =
      Some (\<lparr>ru_id = 4, ru_username = units ''carol''\<rparr>,
            two_users_db\<lparr>users := users two_users_db @
              [\<lparr>u_id = 4, u_username = units ''carol'', u_pin = ''4321'',
                u_created_at = ''2023-11-14 22:13:20''\<rparr>],
              users_seq := 4\<rparr>)"
    using new
    by (simp add: createUser_def insert_user_def lower_latin_examples Let_def datetime_examples)
       (simp add: two_users_db_def next_rowid_def)
  have fresh: "example_token \<notin> set (map s_id (sessions two_users_db))"
    by (simp add: two_users_db_def example_token_def)
  show ?thesis
    using fresh
    by (simp add: post_auth_register_def falsy_def pin cu start_session_def createSession_def
        example_generateSessionId SESSION_MAX_AGE_def session_examples datetime_examples Let_def
        user_exists_def)
qed

text \<open>
  Claim C7, as amended. Let \<^verbatim>\<open>POST /auth/register\<close> have succeeded for the handle \<open>h\<close>, and
  let \<open>d\<close> be a later store, one that still has the user rows of the store after that
  registration (no route removes or changes a user row). Then a registration with a handle
  \<open>h2\<close> that has the same lowercase form as \<open>h\<close>, and a PIN of four to six digits, is answered
  400 and the store is left as it is: no user is created and none is changed. The answer
  is the one for a taken name, \<^verbatim>\<open>Username already taken\<close>, when \<open>h2\<close> has 3 to 20 code units;
  the route tests the length of the handle as it was sent before it looks the name up, and
  answers a shorter or longer \<open>h2\<close> with \<^verbatim>\<open>Username must be 3-20 characters\<close>. This holds
  whatever function \<open>toLowerCase\<close> is.
\<close>

theorem register_duplicate_rejected:
  assumes "post_auth_register toLowerCase d0 t0 r0 (Some h) (Some p) = (resp, d1)"
    and "status resp = 200"
    and "set (users d1) \<subseteq> set (users d)"
    and "toLowerCase h2 = toLowerCase h" and "valid_pin p2"
  shows "post_auth_register toLowerCase d now random (Some h2) (Some p2) =
           (json 400 (ErrorMsg
              (if h2 = [] then ''Username and PIN required''
               else if length h2 < 3 \<or> 20 < length h2 then ''Username must be 3-20 characters''
               else ''Username already taken'')), d)"
proof -
  have "toLowerCase h \<in> u_username ` set (users d1)"
    using register_success[OF assms(1,2)] by simp
  then have "toLowerCase h2 \<in> set (map u_username (users d))"
    using assms(3,4) by auto
  then have "createUser toLowerCase d now h2 p2 = None"
    by (rule createUser_taken)
  then show ?thesis
    using assms(5) valid_pin_nonempty[OF assms(5)]
    by (simp add: post_auth_register_def falsy_def)
qed

theorem register_duplicate_rejected_witness:
  "post_auth_register toLowerCase_latin
     (snd (post_auth_register toLowerCase_latin two_users_db 1700000000000 example_random
             (Some (units ''Carol'')) (Some ''4321'')))
     1700000001000 example_random (Some (units ''CAROL'')) (Some ''000000'') =
   (json 400 (ErrorMsg ''Username already taken''),
    snd (post_auth_register toLowerCase_latin two_users_db 1700000000000 example_random
           (Some (units ''Carol'')) (Some ''4321'')))"
proof -
  have same: "toLowerCase_latin (units ''CAROL'') = toLowerCase_latin (units ''Carol'')"
    by (simp add: lower_latin_examples)
  have pin: "valid_pin ''000000''"
    by (simp add: valid_pin_def is_digit_def)
  obtain resp d1 where
    reg: "post_auth_register toLowerCase_latin two_users_db 1700000000000 example_random
            (Some (units ''Carol'')) (Some ''4321'') = (resp, d1)" and ok: "status resp = 200"
    by (simp add: carol_register)
  from register_duplicate_rejected[OF reg ok subset_refl same pin, of 1700000001000 example_random]
  show ?thesis
    by (simp add: reg)
qed

text \<open>
  Claim C7 as it is written promises the answer for a taken name for every \<open>h2\<close> with the
  lowercase form of \<open>h\<close>. Lowercasing can change the length: the capital I with dot above,
  one code unit, becomes an i followed by a combining dot above, two code units. A user
  registers the name made of i, combining dot above and a (three code units, its own
  lowercase form) with the PIN 1234. A second registration sends capital I with dot above
  and a, which has the same lowercase form and two code units, with the same PIN: it is
  answered 400 with \<^verbatim>\<open>Username must be 3-20 characters\<close>, not with \<^verbatim>\<open>Username already taken\<close>,
  and the store stays as it is.
\<close>

theorem register_same_lowercase_length_rejected:
  "toLowerCase_latin dotted_capital_name = toLowerCase_latin dotted_name \<and>
   valid_pin ''1234'' \<and>
   status (fst (post_auth_register toLowerCase_latin two_users_db 1700000000000 example_random
                  (Some dotted_name) (Some ''1234''))) = 200 \<and>
   post_auth_register toLowerCase_latin
     (snd (post_auth_register toLowerCase_latin two_users_db 1700000000000 example_random
             (Some dotted_name) (Some ''1234'')))
     1700000001000 example_random (Some dotted_capital_name) (Some ''1234'') =
   (json 400 (ErrorMsg ''Username must be 3-20 characters''),
    snd (post_auth_register toLowerCase_latin two_users_db 1700000000000 example_random
           (Some dotted_name) (Some ''1234''))) \<and>
   json 400 (ErrorMsg ''Username must be 3-20 characters'') \<noteq>
   json 400 (ErrorMsg ''Username already taken'')"
proof -
  have same: "toLowerCase_latin dotted_capital_name = toLowerCase_latin dotted_name"
    by (simp add: lower_latin_examples)
  have pin: "valid_pin ''1234''"
    by (simp add: valid_pin_def is_digit_def)
  have short: "dotted_capital_name \<noteq> []" "length dotted_capital_name = 2"
    by (simp_all add: dotted_capital_name_def)
  have second: "post_auth_register toLowerCase_latin d 1700000001000 example_random
      (Some dotted_capital_name) (Some ''1234'') =
      (json 400 (ErrorMsg ''Username must be 3-20 characters''), d)" for d
    using short by (simp add: post_auth_register_def falsy_def)
  show ?thesis
    by (simp add: same pin second register_dotted_name json_def)
qed

section \<open>Toggling a complex in the client\<close>

lemma succeeded_simps [simp]:
  "succeeded [] = []"
  "succeeded ((m, i, Ok) # cs) = i # succeeded cs"
  "succeeded ((m, i, NotOk) # cs) = succeeded cs"
  "succeeded ((m, i, NetworkError) # cs) = succeeded cs"
  by (simp_all add: succeeded_def)

lemma upt_shift: "net n # map net [Suc n..<Suc (n + k)] = map net [n..<Suc (n + k)]"
  by (simp add: upt_conv_Cons del: upt_Suc)

lemma mark_complex_sent:
  "\<exists>new. snd (mark_complex net ids vs sent) = sent @ new \<and>
         fst (mark_complex net ids vs sent) = vs @ succeeded new \<and>
         (\<forall>c\<in>set new. fst c = POST) \<and>
         map call_result new = map net [length sent..<length sent + length new] \<and>
         (distinct ids \<longrightarrow> prefix (map call_id new) (filter (\<lambda>i. i \<notin> set vs) ids)) \<and>
         (distinct ids \<longrightarrow> NetworkError \<notin> call_result ` set new \<longrightarrow>
            map call_id new = filter (\<lambda>i. i \<notin> set vs) ids)"
proof (induction ids arbitrary: vs sent)
  case Nil
  then show ?case by simp
next
  case (Cons i ids)
  show ?case
  proof (cases "i \<in> set vs")
    case True
    from Cons.IH[of vs sent] True show ?thesis by auto
  next
    case False
    show ?thesis
    proof (cases "net (length sent)")
      case NetworkError
      then show ?thesis
        using False by (intro exI[of _ "[(POST, i, NetworkError)]"]) simp
    next
      case Ok
      let ?c = "(POST, i, Ok)"
      from Cons.IH[of "vs @ [i]" "sent @ [?c]"] obtain new where
        new: "snd (mark_complex net ids (vs @ [i]) (sent @ [?c])) = (sent @ [?c]) @ new"
          "fst (mark_complex net ids (vs @ [i]) (sent @ [?c])) = (vs @ [i]) @ succeeded new"
          "\<forall>c\<in>set new. fst c = POST"
          "map call_result new = map net [length (sent @ [?c])..<length (sent @ [?c]) + length new]"
          "distinct ids \<longrightarrow> prefix (map call_id new) (filter (\<lambda>j. j \<notin> set (vs @ [i])) ids)"
          "distinct ids \<longrightarrow> NetworkError \<notin> call_result ` set new \<longrightarrow>
             map call_id new = filter (\<lambda>j. j \<notin> set (vs @ [i])) ids"
        by blast
      have flt: "distinct (i # ids) \<Longrightarrow>
          filter (\<lambda>j. j \<notin> set (vs @ [i])) ids = filter (\<lambda>j. j \<notin> set vs) ids"
        by (auto intro: filter_cong)
      have res: "map call_result (?c # new) = map net [length sent..<length sent + length (?c # new)]"
        using new(4) Ok upt_shift[of net "length sent" "length new"] by simp
      show ?thesis
        using False Ok new(1,2,3) res new(5,6) flt
        by (intro exI[of _ "?c # new"]) (auto simp del: upt_Suc)
    next
      case NotOk
      let ?c = "(POST, i, NotOk)"
      from Cons.IH[of vs "sent @ [?c]"] obtain new where
        new: "snd (mark_complex net ids vs (sent @ [?c])) = (sent @ [?c]) @ new"
          "fst (mark_complex net ids vs (sent @ [?c])) = vs @ succeeded new"
          "\<forall>c\<in>set new. fst c = POST"
          "map call_result new = map net [length (sent @ [?c])..<length (sent @ [?c]) + length new]"
          "distinct ids \<longrightarrow> prefix (map call_id new) (filter (\<lambda>j. j \<notin> set vs) ids)"
          "distinct ids \<longrightarrow> NetworkError \<notin> call_result ` set new \<longrightarrow>
             map call_id new = filter (\<lambda>j. j \<notin> set vs) ids"
        by blast
      have res: "map call_result (?c # new) = map net [length sent..<length sent + length (?c # new)]"
        using new(4) NotOk upt_shift[of net "length sent" "length new"] by simp
      show ?thesis
        using False NotOk new(1,2,3) res new(5,6)
        by (intro exI[of _ "?c # new"]) (auto simp del: upt_Suc)
    qed
  qed
qed

lemma remove1_filter_distinct: "distinct vs \<Longrightarrow> remove1 i vs = filter (\<lambda>x. x \<noteq> i) vs"
  by (simp add: distinct_remove1_removeAll removeAll_filter_not_eq eq_commute[of i])

lemma unmark_complex_sent:
  assumes "distinct vs"
  shows "\<exists>new. snd (unmark_complex net ids vs sent) = sent @ new \<and>
         fst (unmark_complex net ids vs sent) = filter (\<lambda>x. x \<notin> set (succeeded new)) vs \<and>
         (\<forall>c\<in>set new. fst c = DELETE) \<and>
         map call_result new = map net [length sent..<length sent + length new] \<and>
         (distinct ids \<longrightarrow> prefix (map call_id new) (filter (\<lambda>i. i \<in> set vs) ids)) \<and>
         (distinct ids \<longrightarrow> NetworkError \<notin> call_result ` set new \<longrightarrow>
            map call_id new = filter (\<lambda>i. i \<in> set vs) ids)"
  using assms
proof (induction ids arbitrary: vs sent)
  case Nil
  then show ?case by simp
next
  case (Cons i ids)
  show ?case
  proof (cases "i \<in> set vs")
    case False
    from Cons.IH[OF Cons.prems, of sent] False show ?thesis by auto
  next
    case True
    show ?thesis
    proof (cases "net (length sent)")
      case NetworkError
      then show ?thesis
        using True by (intro exI[of _ "[(DELETE, i, NetworkError)]"]) simp
    next
      case Ok
      let ?c = "(DELETE, i, Ok)"
      let ?vs = "remove1 i vs"
      have d: "distinct ?vs" using Cons.prems by simp
      have rm: "?vs = filter (\<lambda>x. x \<noteq> i) vs"
        by (rule remove1_filter_distinct[OF Cons.prems])
      from Cons.IH[OF d, of "sent @ [?c]"] obtain new where
        new: "snd (unmark_complex net ids ?vs (sent @ [?c])) = (sent @ [?c]) @ new"
          "fst (unmark_complex net ids ?vs (sent @ [?c])) = filter (\<lambda>x. x \<notin> set (succeeded new)) ?vs"
          "\<forall>c\<in>set new. fst c = DELETE"
          "map call_result new = map net [length (sent @ [?c])..<length (sent @ [?c]) + length new]"
          "distinct ids \<longrightarrow> prefix (map call_id new) (filter (\<lambda>j. j \<in> set ?vs) ids)"
          "distinct ids \<longrightarrow> NetworkError \<notin> call_result ` set new \<longrightarrow>
             map call_id new = filter (\<lambda>j. j \<in> set ?vs) ids"
        by blast
      have flt: "distinct (i # ids) \<Longrightarrow>
          filter (\<lambda>j. j \<in> set ?vs) ids = filter (\<lambda>j. j \<in> set vs) ids"
        using Cons.prems by (auto intro: filter_cong)
      have mirror: "filter (\<lambda>x. x \<notin> set (succeeded new)) ?vs =
          filter (\<lambda>x. x \<notin> set (succeeded (?c # new))) vs"
        by (auto simp: rm intro: filter_cong)
      have res: "map call_result (?c # new) = map net [length sent..<length sent + length (?c # new)]"
        using new(4) Ok upt_shift[of net "length sent" "length new"] by simp
      show ?thesis
        using True Ok new(1,3) res new(5,6) flt new(2)[unfolded mirror]
        by (intro exI[of _ "?c # new"]) (auto simp del: upt_Suc succeeded_simps)
    next
      case NotOk
      let ?c = "(DELETE, i, NotOk)"
      from Cons.IH[OF Cons.prems, of "sent @ [?c]"] obtain new where
        new: "snd (unmark_complex net ids vs (sent @ [?c])) = (sent @ [?c]) @ new"
          "fst (unmark_complex net ids vs (sent @ [?c])) = filter (\<lambda>x. x \<notin> set (succeeded new)) vs"
          "\<forall>c\<in>set new. fst c = DELETE"
          "map call_result new = map net [length (sent @ [?c])..<length (sent @ [?c]) + length new]"
          "distinct ids \<longrightarrow> prefix (map call_id new) (filter (\<lambda>j. j \<in> set vs) ids)"
          "distinct ids \<longrightarrow> NetworkError \<notin> call_result ` set new \<longrightarrow>
             map call_id new = filter (\<lambda>j. j \<in> set vs) ids"
        by blast
      have res: "map call_result (?c # new) = map net [length sent..<length sent + length (?c # new)]"
        using new(4) NotOk upt_shift[of net "length sent" "length new"] by simp
      show ?thesis
        using True NotOk new(1,2,3) res new(5,6)
        by (intro exI[of _ "?c # new"]) (auto simp del: upt_Suc)
    qed
  qed
qed

lemma succeeded_subset: "set (succeeded sent) \<subseteq> call_id ` set sent"
  by (auto simp: succeeded_def)

text \<open>
  Claim C9. Let the local mirror \<^verbatim>\<open>visitedStations\<close> and the complex of the station be lists
  without repetitions. \<^verbatim>\<open>toggleStation\<close> takes as target the opposite of the membership of
  the station id in the mirror: every request it sends is a POST when the station was not
  in the mirror and a DELETE when it was. The requests go, one each and in the order of
  the complex, to the members that are not at the target (\<open>pending\<close>): to all of them when
  no request throws, and to an initial part of them when one does, which is then the last
  request sent. The k-th request is answered by \<open>net k\<close>. The new mirror is the old one with
  the members whose request succeeded appended (target visited) or removed (target not
  visited), so the old and the new mirror differ on exactly those members.
\<close>

theorem toggle_partial_failure:
  assumes "distinct visitedStations"
    and "distinct (case getComplexStations of Some f \<Rightarrow> f stationId | None \<Rightarrow> [stationId])"
  shows "let complexStations = (case getComplexStations of Some f \<Rightarrow> f stationId | None \<Rightarrow> [stationId]);
             target = (stationId \<notin> set visitedStations);
             pending = filter (\<lambda>i. (i \<in> set visitedStations) \<noteq> target) complexStations;
             mirror = fst (toggleStation net getComplexStations visitedStations stationId);
             sent = snd (toggleStation net getComplexStations visitedStations stationId)
         in (\<forall>c\<in>set sent. fst c = (if target then POST else DELETE)) \<and>
            prefix (map call_id sent) pending \<and>
            (NetworkError \<notin> call_result ` set sent \<longrightarrow> map call_id sent = pending) \<and>
            map call_result sent = map net [0..<length sent] \<and>
            mirror = (if target then visitedStations @ succeeded sent
                      else filter (\<lambda>x. x \<notin> set (succeeded sent)) visitedStations) \<and>
            (set mirror - set visitedStations) \<union> (set visitedStations - set mirror) =
              set (succeeded sent)"
proof -
  define G where "G = (case getComplexStations of Some f \<Rightarrow> f stationId | None \<Rightarrow> [stationId])"
  have dG: "distinct G" using assms(2) by (simp add: G_def)
  show ?thesis
  proof (cases "stationId \<in> set visitedStations")
    case True
    from unmark_complex_sent[OF assms(1), of net G "[]"] obtain new where
      new: "snd (unmark_complex net G visitedStations []) = new"
        "fst (unmark_complex net G visitedStations []) =
           filter (\<lambda>x. x \<notin> set (succeeded new)) visitedStations"
        "\<forall>c\<in>set new. fst c = DELETE"
        "map call_result new = map net [0..<length new]"
        "prefix (map call_id new) (filter (\<lambda>i. i \<in> set visitedStations) G)"
        "NetworkError \<notin> call_result ` set new \<longrightarrow>
           map call_id new = filter (\<lambda>i. i \<in> set visitedStations) G"
      using dG by auto
    have sub: "set (succeeded new) \<subseteq> set visitedStations"
      using succeeded_subset[of new] set_mono_prefix[OF new(5)] by auto
    have diff: "(set (filter (\<lambda>x. x \<notin> set (succeeded new)) visitedStations) - set visitedStations) \<union>
        (set visitedStations - set (filter (\<lambda>x. x \<notin> set (succeeded new)) visitedStations)) =
        set (succeeded new)"
      using sub by auto
    show ?thesis
      using True new diff
      by (simp add: toggleStation_def Let_def G_def[symmetric])
  next
    case False
    from mark_complex_sent[of net G visitedStations "[]"] obtain new where
      new: "snd (mark_complex net G visitedStations []) = new"
        "fst (mark_complex net G visitedStations []) = visitedStations @ succeeded new"
        "\<forall>c\<in>set new. fst c = POST"
        "map call_result new = map net [0..<length new]"
        "prefix (map call_id new) (filter (\<lambda>i. i \<notin> set visitedStations) G)"
        "NetworkError \<notin> call_result ` set new \<longrightarrow>
           map call_id new = filter (\<lambda>i. i \<notin> set visitedStations) G"
      using dG by auto
    have sub: "set (succeeded new) \<inter> set visitedStations = {}"
      using succeeded_subset[of new] set_mono_prefix[OF new(5)] by auto
    have diff: "(set (visitedStations @ succeeded new) - set visitedStations) \<union>
        (set visitedStations - set (visitedStations @ succeeded new)) = set (succeeded new)"
      using sub by auto
    show ?thesis
      using False new diff
      by (simp add: toggleStation_def Let_def G_def[symmetric])
  qed
qed

theorem toggle_partial_failure_witness:
  "toggleStation example_net (Some example_complex) [''A01'', ''R11''] ''G08'' =
     ([''A01'', ''R11'', ''G08''], [(POST, ''G08'', Ok), (POST, ''G09'', NetworkError)]) \<and>
   prefix [''G08'', ''G09''] [''G08'', ''G09'', ''G10''] \<and>
   (set [''A01'', ''R11'', ''G08''] - set [''A01'', ''R11'']) \<union>
   (set [''A01'', ''R11''] - set [''A01'', ''R11'', ''G08'']) = set [''G08'']"
proof -
  have d1: "distinct [''A01'', ''R11'']" by simp
  have d2: "distinct (case Some example_complex of Some f \<Rightarrow> f ''G08'' | None \<Rightarrow> [''G08''])"
    by (simp add: example_complex_def)
  have run: "toggleStation example_net (Some example_complex) [''A01'', ''R11''] ''G08'' =
     ([''A01'', ''R11'', ''G08''], [(POST, ''G08'', Ok), (POST, ''G09'', NetworkError)])"
    by (simp add: toggleStation_def example_complex_def example_net_def)
  from toggle_partial_failure[OF d1 d2, of example_net] show ?thesis
    by (simp add: Let_def run example_complex_def)
qed

section \<open>Creating a session\<close>

lemma length_generateSessionId: "length (generateSessionId random) = 48"
  by (simp add: generateSessionId_def hex2_def length_concat comp_def sum_list_triv)

lemma hexdigit_hex: "hexdigit k \<in> set ''0123456789abcdef''"
  unfolding hexdigit_def by (rule nth_mem) simp

lemma hex2_hex:
  assumes "c \<in> set (hex2 b)"
  shows "c \<in> set ''0123456789abcdef''"
proof -
  from assms have "c = hexdigit (b div 16) \<or> c = hexdigit b"
    by (simp add: hex2_def)
  then show ?thesis
    using hexdigit_hex[of "b div 16"] hexdigit_hex[of b] by blast
qed

lemma generateSessionId_hex:
  assumes "c \<in> set (generateSessionId random)"
  shows "c \<in> set ''0123456789abcdef''"
proof -
  from assms obtain i where "c \<in> set (hex2 (random_byte (random i)))"
    by (auto simp: generateSessionId_def)
  then show ?thesis by (rule hex2_hex)
qed

lemma random_byte_lt: "random_byte r < 256"
  by (simp add: random_byte_def nat_less_iff)

lemma createSession_shape:
  assumes "user_exists d uid" and "generateSessionId random \<notin> set (map s_id (sessions d))"
  shows "createSession d now random uid =
           Inr (generateSessionId random,
                d\<lparr>sessions := sessions d @
                   [\<lparr>s_id = generateSessionId random, s_user_id = uid,
                     s_created_at = sqlite_datetime now,
                     s_expires_at = toISOString (now + 30 * 24 * 60 * 60 * 1000)\<rparr>]\<rparr>)"
  using assms by (simp add: createSession_def Let_def SESSION_MAX_AGE_def)

text \<open>
  Claim C4. \<^verbatim>\<open>createSession\<close> takes the bytes of the session id from \<^verbatim>\<open>Math.random()\<close>: byte
  \<open>i\<close> is the integer part of 256 times the \<open>i\<close>-th result, and the id is the text of the 24
  bytes in lowercase hexadecimal, two digits each. The id is therefore a function of the
  24 results of \<^verbatim>\<open>Math.random()\<close>, which the language does not make a cryptographic
  source. The theorem evaluates the function for alice at 22:13:20 on 2023-11-14, when the
  \<open>i\<close>-th result of \<^verbatim>\<open>Math.random()\<close> is \<open>(7 i + 3) / 256\<close>: the bytes are \<open>7 i + 3\<close>, the
  session row has the id made of them, and it expires 30 days later to the millisecond.
  The lemmas before the theorem give the parts of the claim that hold for every input: 48
  hexadecimal digits, the expiry, the inserted row and the returned id.
\<close>

theorem session_id_from_Math_random:
  "createSession two_users_db 1700000000000 example_random 2 =
     Inr (concat (map (\<lambda>i. hex2 (7 * i + 3)) [0..<24]),
          two_users_db\<lparr>sessions := sessions two_users_db @
            [\<lparr>s_id = ''030a11181f262d343b424950575e656c737a81888f969da4'', s_user_id = 2,
              s_created_at = ''2023-11-14 22:13:20'',
              s_expires_at = ''2023-12-14T22:13:20.000Z''\<rparr>]\<rparr>) \<and>
   map (\<lambda>i. random_byte (example_random i)) [0..<24] = map (\<lambda>i. 7 * i + 3) [0..<24]"
proof -
  have bytes: "map (\<lambda>i. random_byte (example_random i)) [0..<24] = map (\<lambda>i. 7 * i + 3) [0..<24]"
    by (simp add: upt_24 random_byte_def example_random_def)
  have tok: "concat (map (\<lambda>i. hex2 (7 * i + 3)) [0..<24]) = example_token"
    by (simp add: upt_24 hex2_def hexdigit_def example_token_def)
  have fresh: "example_token \<notin> set (map s_id (sessions two_users_db))"
    by (simp add: two_users_db_def example_token_def)
  have ex: "user_exists two_users_db 2"
    by (simp add: two_users_db_def user_exists_def)
  have "createSession two_users_db 1700000000000 example_random 2 =
     Inr (example_token,
          two_users_db\<lparr>sessions := sessions two_users_db @
            [\<lparr>s_id = example_token, s_user_id = 2,
              s_created_at = ''2023-11-14 22:13:20'',
              s_expires_at = ''2023-12-14T22:13:20.000Z''\<rparr>]\<rparr>)"
    using fresh ex
    by (simp add: createSession_def example_generateSessionId SESSION_MAX_AGE_def
        session_examples datetime_examples Let_def)
  then show ?thesis
    using bytes by (simp add: tok) (simp add: example_token_def)
qed

section \<open>Sessions on the day of their expiry\<close>

text \<open>
  What the theorem on the expired session shows at one instant holds in general: a session
  made by \<^verbatim>\<open>createSession\<close> is resolved at every instant of the day (UTC) on which it
  expires, before and after the expiry. On that day both texts start with the same date,
  and the comparison is decided by the character after it.
\<close>

lemma append_less_same_prefix:
  fixes xs :: string
  shows "xs @ ys < xs @ zs \<longleftrightarrow> ys < zs"
  by (induction xs) simp_all

lemma expiry_day_text:
  assumes "now div 86400000 = expiry div 86400000"
  shows "sqlite_datetime now < toISOString expiry"
proof -
  have "date_text now = date_text expiry"
    using assms by (simp add: date_text_def)
  then show ?thesis
    by (simp add: sqlite_datetime_def toISOString_def append_less_same_prefix)
qed

lemma session_users_unknown:
  assumes "sid \<notin> s_id ` set (sessions d)"
  shows "session_users d now sid = []"
  using assms by (auto simp: session_users_def)

lemma session_users_append:
  "session_users (d\<lparr>sessions := sessions d @ [r]\<rparr>) now sid =
     session_users d now sid @
     [\<lparr>ru_id = u_id u, ru_username = u_username u\<rparr>.
        u \<leftarrow> users d, s_user_id r = u_id u, s_id r = sid, s_expires_at r > sqlite_datetime now]"
  by (simp add: session_users_def)

lemma session_accepted_on_expiry_day:
  assumes "createSession d t random uid = Inr (tok, d')"
    and "now div 86400000 = (t + SESSION_MAX_AGE) div 86400000"
  shows "\<exists>user. authMiddleware d' now (Some tok) = Some user \<and> ru_id user = uid"
proof -
  have tok: "tok = generateSessionId random" and fresh: "tok \<notin> s_id ` set (sessions d)"
    and ex: "user_exists d uid"
    and d': "d' = d\<lparr>sessions := sessions d @
        [\<lparr>s_id = tok, s_user_id = uid, s_created_at = sqlite_datetime t,
          s_expires_at = toISOString (t + SESSION_MAX_AGE)\<rparr>]\<rparr>"
    using assms(1) by (auto simp: createSession_def Let_def split: if_splits)
  have ne: "tok \<noteq> []"
    using length_generateSessionId[of random] tok by auto
  have live: "sqlite_datetime now < toISOString (t + SESSION_MAX_AGE)"
    by (rule expiry_day_text[OF assms(2)])
  let ?rows = "[\<lparr>ru_id = u_id u, ru_username = u_username u\<rparr>. u \<leftarrow> users d, uid = u_id u]"
  have rows: "session_users d' now tok = ?rows"
    using live by (simp add: d' session_users_append session_users_unknown[OF fresh] cong: if_cong)
  obtain user rest where cons: "?rows = user # rest"
    using ex by (cases ?rows) (auto simp: user_exists_def)
  then have "user \<in> set ?rows" by simp
  then have "ru_id user = uid" by auto
  moreover have "authMiddleware d' now (Some tok) = Some user"
    using ne by (simp add: authMiddleware_def getUserFromSession_def rows cons)
  ultimately show ?thesis by blast
qed

end
